theory Spec2Isabelle
  imports Main "HOL-Library.Word" "HOL-Library.Sublist"
begin

unbundle bit_operations_syntax

section \<open>The generated Parquet writer and reader (cmd/parquetgen/main.go, template tpl)\<close>

text \<open>
  The source is the Go template \<^verbatim>\<open>tpl\<close> of \<^verbatim>\<open>cmd/parquetgen/main.go\<close>: for a user record
  type \<^verbatim>\<open>{{.Type}}\<close> it generates a \<^verbatim>\<open>ParquetWriter\<close>, a \<^verbatim>\<open>ParquetReader\<close> and one
  column buffer type per physical type and repetition.  The record type is the type
  variable \<open>'r\<close> throughout.  Go struct fields are record fields or datatype selectors;
  a prefix or suffix is added where HOL's flat name space needs one (\<^verbatim>\<open>p.len\<close> is
  \<open>pw_len\<close>, \<^verbatim>\<open>w.n\<close> is \<open>wc_n\<close>, the fields of an optional column end in \<open>_o\<close>).
\<close>

type_synonym byte = "8 word"

subsection \<open>Errors\<close>

text \<open>
  Every error return and every run-time panic of the source is a value of this type.
  \<open>CollabError\<close> is an error returned by a collaborator that is not part of the
  template (the metadata module, Snappy, the level codec).
\<close>

datatype error =
    ShortWrite
  | EOF
  | UnexpectedEOF
  | CollabError string
  | UnknownField string
  | UnableToReadField string error
  | PanicIndexOutOfRange
  | PanicMakeSlice
  | PanicSliceBounds
  | PanicNilDeref

text \<open>
  The run-time panics among these values.  A panic is not returned to the caller as an
  \<^verbatim>\<open>error\<close>: it unwinds the callers, so a statement that handles a returned \<^verbatim>\<open>err\<close> never
  sees it.
\<close>

fun is_panic :: "error \<Rightarrow> bool" where
  "is_panic PanicIndexOutOfRange = True"
| "is_panic PanicMakeSlice = True"
| "is_panic PanicSliceBounds = True"
| "is_panic PanicNilDeref = True"
| "is_panic _ = False"

subsection \<open>Column buffers\<close>

text \<open>
  \<^verbatim>\<open>RequiredField\<close> and \<^verbatim>\<open>OptionalField\<close> are the two embedded base structs.  The
  definition levels are Go \<^verbatim>\<open>int64\<close>; only the constants 0 and 1 are ever stored or
  compared, so they are modelled as \<open>int\<close>.
\<close>

record RequiredField =
  col :: string

record OptionalField =
  defs :: "int list"
  col_o :: string

text \<open>
  The template declares one struct per physical type (\<^verbatim>\<open>Uint32Field\<close>,
  \<^verbatim>\<open>Int32Field\<close>, ...) and one per optional physical type.  They differ in the
  element type only, which is the type variable \<open>'v\<close> here: \<open>vals\<close> is the buffer,
  \<open>val\<close> the extract adapter and \<open>read\<close> the inject adapter.  A Go pointer
  \<^verbatim>\<open>*T\<close> that may be nil is \<open>'v option\<close>.
\<close>

record ('r, 'v) TField = RequiredField +
  vals :: "'v list"
  val :: "'r \<Rightarrow> 'v"
  read :: "'r \<Rightarrow> 'v \<Rightarrow> 'r"

record ('r, 'v) TOptionalField = OptionalField +
  vals_o :: "'v list"
  val_o :: "'r \<Rightarrow> 'v option"
  read_o :: "'r \<Rightarrow> 'v option \<Rightarrow> 'r"

text \<open>\<^verbatim>\<open>NewUint32Field(val, read, col)\<close> and its siblings: an empty buffer.\<close>

definition NewTField :: "('r \<Rightarrow> 'v) \<Rightarrow> ('r \<Rightarrow> 'v \<Rightarrow> 'r) \<Rightarrow> string \<Rightarrow> ('r, 'v) TField" where
  "NewTField v rd c = \<lparr>col = c, vals = [], val = v, read = rd\<rparr>"

definition NewTOptionalField ::
  "('r \<Rightarrow> 'v option) \<Rightarrow> ('r \<Rightarrow> 'v option \<Rightarrow> 'r) \<Rightarrow> string \<Rightarrow> ('r, 'v) TOptionalField" where
  "NewTOptionalField v rd c = \<lparr>defs = [], col_o = c, vals_o = [], val_o = v, read_o = rd\<rparr>"

text \<open>\<^verbatim>\<open>OptionalField.nVals\<close>: the loop counting the definition levels equal to 1.\<close>

fun nVals_loop :: "int list \<Rightarrow> nat \<Rightarrow> nat" where
  "nVals_loop [] out = out"
| "nVals_loop (d # ds) out = nVals_loop ds (if d = 1 then out + 1 else out)"

definition nVals :: "int list \<Rightarrow> nat" where
  "nVals ds = nVals_loop ds 0"

text \<open>\<^verbatim>\<open>Uint32Field.Add\<close> (the same body for every required type).\<close>

definition TField_Add :: "('r, 'v) TField \<Rightarrow> 'r \<Rightarrow> ('r, 'v) TField" where
  "TField_Add f r = f\<lparr>vals := vals f @ [val f r]\<rparr>"

text \<open>\<^verbatim>\<open>Uint32OptionalField.Add\<close> (the same body for every optional type).\<close>

definition TOptionalField_Add :: "('r, 'v) TOptionalField \<Rightarrow> 'r \<Rightarrow> ('r, 'v) TOptionalField" where
  "TOptionalField_Add f r =
     (case val_o f r of
        Some v \<Rightarrow> f\<lparr>vals_o := vals_o f @ [v], defs := defs f @ [1]\<rparr>
      | None \<Rightarrow> f\<lparr>defs := defs f @ [0]\<rparr>)"

text \<open>
  \<^verbatim>\<open>Int32Field.Scan\<close> (the same body for every required type): nothing happens on an
  empty buffer, otherwise the head value is removed and handed to the inject adapter.
  The result is the buffer and the target record after the call.
\<close>

definition TField_Scan :: "('r, 'v) TField \<Rightarrow> 'r \<Rightarrow> ('r, 'v) TField \<times> 'r" where
  "TField_Scan f r =
     (case vals f of
        [] \<Rightarrow> (f, r)
      | v # vs \<Rightarrow> (f\<lparr>vals := vs\<rparr>, read f r v))"

text \<open>
  \<^verbatim>\<open>Uint32OptionalField.Scan\<close> (the same body for every optional type).  With a head
  level 1 and no value left, \<^verbatim>\<open>f.vals[0]\<close> panics.
\<close>

definition TOptionalField_Scan ::
  "('r, 'v) TOptionalField \<Rightarrow> 'r \<Rightarrow> error + (('r, 'v) TOptionalField \<times> 'r)" where
  "TOptionalField_Scan f r =
     (case defs f of
        [] \<Rightarrow> Inr (f, r)
      | d # ds \<Rightarrow>
          if d = 1 then
            (case vals_o f of
               [] \<Rightarrow> Inl PanicIndexOutOfRange
             | v # vs \<Rightarrow> Inr (f\<lparr>vals_o := vs, defs := ds\<rparr>, read_o f r (Some v)))
          else Inr (f\<lparr>defs := ds\<rparr>, read_o f r None))"

text \<open>
  The \<^verbatim>\<open>Field\<close> interface: one constructor per generated struct.  A \<^verbatim>\<open>float32\<close> is
  held as its IEEE-754 bit pattern (\<^verbatim>\<open>binary.Write\<close> stores exactly these 32 bits), a Go
  \<^verbatim>\<open>string\<close> as its bytes.
\<close>

datatype 'r Field =
    Uint32Field "('r, 32 word) TField"
  | Uint32OptionalField "('r, 32 word) TOptionalField"
  | Int32Field "('r, 32 word) TField"
  | Int32OptionalField "('r, 32 word) TOptionalField"
  | Int64Field "('r, 64 word) TField"
  | Int64OptionalField "('r, 64 word) TOptionalField"
  | Uint64Field "('r, 64 word) TField"
  | Uint64OptionalField "('r, 64 word) TOptionalField"
  | Float32Field "('r, 32 word) TField"
  | Float32OptionalField "('r, 32 word) TOptionalField"
  | BoolField "('r, bool) TField"
  | BoolOptionalField "('r, bool) TOptionalField"
  | StringField "('r, byte list) TField"
  | StringOptionalField "('r, byte list) TOptionalField"

text \<open>\<^verbatim>\<open>Field.Add\<close>, dispatched on the dynamic type.\<close>

fun Field_Add :: "'r Field \<Rightarrow> 'r \<Rightarrow> 'r Field" where
  "Field_Add (Uint32Field f) r = Uint32Field (TField_Add f r)"
| "Field_Add (Uint32OptionalField f) r = Uint32OptionalField (TOptionalField_Add f r)"
| "Field_Add (Int32Field f) r = Int32Field (TField_Add f r)"
| "Field_Add (Int32OptionalField f) r = Int32OptionalField (TOptionalField_Add f r)"
| "Field_Add (Int64Field f) r = Int64Field (TField_Add f r)"
| "Field_Add (Int64OptionalField f) r = Int64OptionalField (TOptionalField_Add f r)"
| "Field_Add (Uint64Field f) r = Uint64Field (TField_Add f r)"
| "Field_Add (Uint64OptionalField f) r = Uint64OptionalField (TOptionalField_Add f r)"
| "Field_Add (Float32Field f) r = Float32Field (TField_Add f r)"
| "Field_Add (Float32OptionalField f) r = Float32OptionalField (TOptionalField_Add f r)"
| "Field_Add (BoolField f) r = BoolField (TField_Add f r)"
| "Field_Add (BoolOptionalField f) r = BoolOptionalField (TOptionalField_Add f r)"
| "Field_Add (StringField f) r = StringField (TField_Add f r)"
| "Field_Add (StringOptionalField f) r = StringOptionalField (TOptionalField_Add f r)"

text \<open>\<^verbatim>\<open>Field.Scan\<close>, dispatched on the dynamic type.\<close>

definition req_scan ::
  "(('r, 'v) TField \<Rightarrow> 'r Field) \<Rightarrow> ('r, 'v) TField \<Rightarrow> 'r \<Rightarrow> error + ('r Field \<times> 'r)" where
  "req_scan C f r = (case TField_Scan f r of (f', r') \<Rightarrow> Inr (C f', r'))"

definition opt_scan ::
  "(('r, 'v) TOptionalField \<Rightarrow> 'r Field) \<Rightarrow> ('r, 'v) TOptionalField \<Rightarrow> 'r
     \<Rightarrow> error + ('r Field \<times> 'r)" where
  "opt_scan C f r =
     (case TOptionalField_Scan f r of Inl e \<Rightarrow> Inl e | Inr (f', r') \<Rightarrow> Inr (C f', r'))"

fun Field_Scan :: "'r Field \<Rightarrow> 'r \<Rightarrow> error + ('r Field \<times> 'r)" where
  "Field_Scan (Uint32Field f) r = req_scan Uint32Field f r"
| "Field_Scan (Uint32OptionalField f) r = opt_scan Uint32OptionalField f r"
| "Field_Scan (Int32Field f) r = req_scan Int32Field f r"
| "Field_Scan (Int32OptionalField f) r = opt_scan Int32OptionalField f r"
| "Field_Scan (Int64Field f) r = req_scan Int64Field f r"
| "Field_Scan (Int64OptionalField f) r = opt_scan Int64OptionalField f r"
| "Field_Scan (Uint64Field f) r = req_scan Uint64Field f r"
| "Field_Scan (Uint64OptionalField f) r = opt_scan Uint64OptionalField f r"
| "Field_Scan (Float32Field f) r = req_scan Float32Field f r"
| "Field_Scan (Float32OptionalField f) r = opt_scan Float32OptionalField f r"
| "Field_Scan (BoolField f) r = req_scan BoolField f r"
| "Field_Scan (BoolOptionalField f) r = opt_scan BoolOptionalField f r"
| "Field_Scan (StringField f) r = req_scan StringField f r"
| "Field_Scan (StringOptionalField f) r = opt_scan StringOptionalField f r"

text \<open>\<^verbatim>\<open>Field.Name\<close>.\<close>

fun Field_Name :: "'r Field \<Rightarrow> string" where
  "Field_Name (Uint32Field f) = col f"
| "Field_Name (Uint32OptionalField f) = col_o f"
| "Field_Name (Int32Field f) = col f"
| "Field_Name (Int32OptionalField f) = col_o f"
| "Field_Name (Int64Field f) = col f"
| "Field_Name (Int64OptionalField f) = col_o f"
| "Field_Name (Uint64Field f) = col f"
| "Field_Name (Uint64OptionalField f) = col_o f"
| "Field_Name (Float32Field f) = col f"
| "Field_Name (Float32OptionalField f) = col_o f"
| "Field_Name (BoolField f) = col f"
| "Field_Name (BoolOptionalField f) = col_o f"
| "Field_Name (StringField f) = col f"
| "Field_Name (StringOptionalField f) = col_o f"

text \<open>
  Observers of a column buffer used to state properties: the definition levels of an
  optional column (\<open>None\<close> for a required one), the number of buffered values, and the
  number of buffered logical records (values of a required column, levels of an optional
  one).
\<close>

fun Field_defs :: "'r Field \<Rightarrow> int list option" where
  "Field_defs (Uint32OptionalField f) = Some (defs f)"
| "Field_defs (Int32OptionalField f) = Some (defs f)"
| "Field_defs (Int64OptionalField f) = Some (defs f)"
| "Field_defs (Uint64OptionalField f) = Some (defs f)"
| "Field_defs (Float32OptionalField f) = Some (defs f)"
| "Field_defs (BoolOptionalField f) = Some (defs f)"
| "Field_defs (StringOptionalField f) = Some (defs f)"
| "Field_defs _ = None"

fun Field_nvals :: "'r Field \<Rightarrow> nat" where
  "Field_nvals (Uint32Field f) = length (vals f)"
| "Field_nvals (Uint32OptionalField f) = length (vals_o f)"
| "Field_nvals (Int32Field f) = length (vals f)"
| "Field_nvals (Int32OptionalField f) = length (vals_o f)"
| "Field_nvals (Int64Field f) = length (vals f)"
| "Field_nvals (Int64OptionalField f) = length (vals_o f)"
| "Field_nvals (Uint64Field f) = length (vals f)"
| "Field_nvals (Uint64OptionalField f) = length (vals_o f)"
| "Field_nvals (Float32Field f) = length (vals f)"
| "Field_nvals (Float32OptionalField f) = length (vals_o f)"
| "Field_nvals (BoolField f) = length (vals f)"
| "Field_nvals (BoolOptionalField f) = length (vals_o f)"
| "Field_nvals (StringField f) = length (vals f)"
| "Field_nvals (StringOptionalField f) = length (vals_o f)"

definition Field_records :: "'r Field \<Rightarrow> nat" where
  "Field_records f = (case Field_defs f of Some ds \<Rightarrow> length ds | None \<Rightarrow> Field_nvals f)"

subsection \<open>Encoders\<close>

text \<open>
  \<^verbatim>\<open>binary.Write(&buf, binary.LittleEndian, v)\<close> for a 32-bit and a 64-bit value: the
  bytes of \<open>v\<close>, least significant first.  Writing into a \<^verbatim>\<open>bytes.Buffer\<close> does not fail.
\<close>

definition le32 :: "32 word \<Rightarrow> byte list" where
  "le32 v = [ucast v, ucast (drop_bit 8 v), ucast (drop_bit 16 v), ucast (drop_bit 24 v)]"

definition le64 :: "64 word \<Rightarrow> byte list" where
  "le64 v = [ucast v, ucast (drop_bit 8 v), ucast (drop_bit 16 v), ucast (drop_bit 24 v),
             ucast (drop_bit 32 v), ucast (drop_bit 40 v), ucast (drop_bit 48 v),
             ucast (drop_bit 56 v)]"

text \<open>
  The loop of \<^verbatim>\<open>StringField.Write\<close>: the length as a little-endian \<^verbatim>\<open>int32\<close> (the
  conversion \<^verbatim>\<open>int32(len(s))\<close> keeps the low 32 bits), then the bytes.
\<close>

definition encode_string :: "byte list \<Rightarrow> byte list" where
  "encode_string s = le32 (word_of_nat (length s)) @ s"

text \<open>
  The loop of \<^verbatim>\<open>BoolField.Write\<close> and \<^verbatim>\<open>BoolOptionalField.Write\<close>:
  \<^verbatim>\<open>rawBuf := make([]byte, (ln + 7) / 8)\<close>, then for \<open>i\<close> from 0 below \<open>ln\<close>, if
  \<^verbatim>\<open>f.vals[i]\<close> then \<^verbatim>\<open>rawBuf[i/8] = rawBuf[i/8] | (1 << uint32(i%8))\<close>.
\<close>

definition packBools_step :: "bool list \<Rightarrow> byte list \<Rightarrow> nat \<Rightarrow> byte list" where
  "packBools_step vs rawBuf i =
     (if vs ! i then rawBuf[i div 8 := (rawBuf ! (i div 8)) OR push_bit (i mod 8) 1]
      else rawBuf)"

definition packBools :: "bool list \<Rightarrow> byte list" where
  "packBools vs =
     foldl (packBools_step vs) (replicate ((length vs + 7) div 8) 0) [0..<length vs]"

text \<open>
  The uncompressed value bytes each \<^verbatim>\<open>Write\<close> method hands to \<^verbatim>\<open>doWrite\<close> as \<^verbatim>\<open>vals\<close>.
  (\<^verbatim>\<open>Int32Field.Write\<close> writes the whole slice with one \<^verbatim>\<open>binary.Write\<close>, the others one
  value at a time: the bytes are the same.)
\<close>

fun Field_payload :: "'r Field \<Rightarrow> byte list" where
  "Field_payload (Uint32Field f) = concat (map le32 (vals f))"
| "Field_payload (Uint32OptionalField f) = concat (map le32 (vals_o f))"
| "Field_payload (Int32Field f) = concat (map le32 (vals f))"
| "Field_payload (Int32OptionalField f) = concat (map le32 (vals_o f))"
| "Field_payload (Int64Field f) = concat (map le64 (vals f))"
| "Field_payload (Int64OptionalField f) = concat (map le64 (vals_o f))"
| "Field_payload (Uint64Field f) = concat (map le64 (vals f))"
| "Field_payload (Uint64OptionalField f) = concat (map le64 (vals_o f))"
| "Field_payload (Float32Field f) = concat (map le32 (vals f))"
| "Field_payload (Float32OptionalField f) = concat (map le32 (vals_o f))"
| "Field_payload (BoolField f) = packBools (vals f)"
| "Field_payload (BoolOptionalField f) = packBools (vals_o f)"
| "Field_payload (StringField f) = concat (map encode_string (vals f))"
| "Field_payload (StringOptionalField f) = concat (map encode_string (vals_o f))"

subsection \<open>The output sink and \<^verbatim>\<open>WriteCounter\<close>\<close>

text \<open>
  The \<^verbatim>\<open>io.Writer\<close> under the writer is an append-only byte sequence.  It may fail:
  \<open>room\<close> is the number of bytes it still accepts (\<open>None\<close>: no limit, as for a
  \<^verbatim>\<open>bytes.Buffer\<close>).  A write that does not fit appends the bytes that fit and returns
  their number with an error, as the \<^verbatim>\<open>io.Writer\<close> contract asks of a short write.
\<close>

record sink =
  written :: "byte list"
  room :: "nat option"

definition sink_Write :: "sink \<Rightarrow> byte list \<Rightarrow> sink \<times> nat \<times> error option" where
  "sink_Write s p =
     (case room s of
        None \<Rightarrow> (s\<lparr>written := written s @ p\<rparr>, length p, None)
      | Some k \<Rightarrow>
          if length p \<le> k
          then (s\<lparr>written := written s @ p, room := Some (k - length p)\<rparr>, length p, None)
          else (s\<lparr>written := written s @ take k p, room := Some 0\<rparr>, k, Some ShortWrite))"

text \<open>
  \<^verbatim>\<open>WriteCounter\<close> and \<^verbatim>\<open>WriteCounter.Write\<close>: the count grows by the number of bytes
  the underlying writer took, also when it returns an error.  (\<^verbatim>\<open>w.n\<close> is an \<^verbatim>\<open>int64\<close>;
  it cannot wrap before 2^63 bytes are written.)
\<close>

record WriteCounter =
  wc_n :: int
  wc_w :: sink

definition WriteCounter_Write ::
  "WriteCounter \<Rightarrow> byte list \<Rightarrow> WriteCounter \<times> nat \<times> error option" where
  "WriteCounter_Write w p =
     (case sink_Write (wc_w w) p of
        (s', n, err) \<Rightarrow> (w\<lparr>wc_n := wc_n w + int n, wc_w := s'\<rparr>, n, err))"

subsection \<open>The collaborators\<close>

text \<open>\<^verbatim>\<open>parquet.Field\<close>, the result of \<^verbatim>\<open>Schema()\<close>.\<close>

datatype ptype =
  Uint32Type | Int32Type | Int64Type | Uint64Type | Float32Type | BoolType | StringType

datatype rtype = RepetitionRequired | RepetitionOptional

datatype parquet_Field = parquet_Field string ptype rtype

fun Field_Schema :: "'r Field \<Rightarrow> parquet_Field" where
  "Field_Schema (Uint32Field f) = parquet_Field (col f) Uint32Type RepetitionRequired"
| "Field_Schema (Uint32OptionalField f) = parquet_Field (col_o f) Uint32Type RepetitionOptional"
| "Field_Schema (Int32Field f) = parquet_Field (col f) Int32Type RepetitionRequired"
| "Field_Schema (Int32OptionalField f) = parquet_Field (col_o f) Int32Type RepetitionOptional"
| "Field_Schema (Int64Field f) = parquet_Field (col f) Int64Type RepetitionRequired"
| "Field_Schema (Int64OptionalField f) = parquet_Field (col_o f) Int64Type RepetitionOptional"
| "Field_Schema (Uint64Field f) = parquet_Field (col f) Uint64Type RepetitionRequired"
| "Field_Schema (Uint64OptionalField f) = parquet_Field (col_o f) Uint64Type RepetitionOptional"
| "Field_Schema (Float32Field f) = parquet_Field (col f) Float32Type RepetitionRequired"
| "Field_Schema (Float32OptionalField f) = parquet_Field (col_o f) Float32Type RepetitionOptional"
| "Field_Schema (BoolField f) = parquet_Field (col f) BoolType RepetitionRequired"
| "Field_Schema (BoolOptionalField f) = parquet_Field (col_o f) BoolType RepetitionOptional"
| "Field_Schema (StringField f) = parquet_Field (col f) StringType RepetitionRequired"
| "Field_Schema (StringOptionalField f) = parquet_Field (col_o f) StringType RepetitionOptional"

text \<open>
  Modelled from the spec: \<^verbatim>\<open>parquet.Metadata\<close> is not part of the template.  On the
  writing side the template only calls it; its state is modelled as the log of these
  calls with their arguments, in call order.
\<close>

datatype meta_call =
    Call_New "parquet_Field list"
  | Call_WritePageHeader string int int int
  | Call_StartRowGroup "parquet_Field list"
  | Call_Footer

type_synonym Metadata = "meta_call list"

text \<open>
  What the reading side gets from the collaborators: a page header
  (\<^verbatim>\<open>ph.CompressedPageSize\<close>, and \<^verbatim>\<open>ph.DataPageHeader.NumValues\<close> when the pointer
  \<^verbatim>\<open>ph.DataPageHeader\<close> is not nil), a \<^verbatim>\<open>parquet.Position\<close> (only its \<^verbatim>\<open>N\<close> is used),
  and the parsed footer: \<^verbatim>\<open>Rows()\<close>, \<^verbatim>\<open>Offsets()\<close> (a Go map: a missing key gives the
  empty slice) and \<^verbatim>\<open>RowGroups()\<close> (per row group, the \<^verbatim>\<open>PathInSchema\<close> of each column).
\<close>

record PageHeader =
  ph_CompressedPageSize :: int
  ph_NumValues :: "int option"

record Position =
  pos_N :: int

record Footer =
  ft_Rows :: int
  ft_Offsets :: "error + (string \<Rightarrow> Position list)"
  ft_RowGroups :: "string list list list"

text \<open>
  Modelled from the spec: the functions of the metadata module, of the level codec and
  of Snappy that the template calls are not in the source files.  They are parameters
  of the model, with the operation surface of section 6 of the specification:
  \<^item> \<open>c_snappy_Encode\<close>, \<open>c_snappy_Decode\<close>: \<^verbatim>\<open>snappy.Encode(nil, b)\<close> and
    \<^verbatim>\<open>snappy.Decode(nil, b)\<close>;
  \<^item> \<open>c_WriteLevels\<close>: the bytes \<^verbatim>\<open>parquet.WriteLevels(w, defs)\<close> writes to \<open>w\<close>, or its
    error;
  \<^item> \<open>c_ReadLevels\<close>: \<^verbatim>\<open>parquet.ReadLevels(r)\<close>, the levels and the number of bytes they
    took;
  \<^item> \<open>c_WritePageHeader\<close>: the header bytes \<^verbatim>\<open>meta.WritePageHeader(w, col, dataLen,
    compressedLen, count)\<close> writes to \<open>w\<close>, or its error;
  \<^item> \<open>c_PageHeader\<close>: \<^verbatim>\<open>meta.PageHeader(r)\<close> on the bytes from the current position of
    \<open>r\<close>: the header and the number of bytes it took after the first (a header that is
    parsed takes at least one byte);
  \<^item> \<open>c_Footer\<close>: the bytes \<^verbatim>\<open>meta.Footer(w)\<close> writes to \<open>w\<close>, or its error;
  \<^item> \<open>c_ReadFooter\<close>: \<^verbatim>\<open>meta.ReadFooter(r)\<close> on the whole input;
  \<^item> \<open>c_GetBools\<close>: \<^verbatim>\<open>parquet.GetBools(r, n)\<close> on the bytes of \<open>r\<close>.
\<close>

record collab =
  c_snappy_Encode :: "byte list \<Rightarrow> byte list"
  c_snappy_Decode :: "byte list \<Rightarrow> error + byte list"
  c_WriteLevels :: "int list \<Rightarrow> error + byte list"
  c_ReadLevels :: "byte list \<Rightarrow> error + (int list \<times> int)"
  c_WritePageHeader :: "string \<Rightarrow> int \<Rightarrow> int \<Rightarrow> int \<Rightarrow> error + byte list"
  c_PageHeader :: "byte list \<Rightarrow> error + (PageHeader \<times> nat)"
  c_Footer :: "Metadata \<Rightarrow> error + byte list"
  c_ReadFooter :: "byte list \<Rightarrow> error + Footer"
  c_GetBools :: "byte list \<Rightarrow> int \<Rightarrow> bool list \<times> error option"

text \<open>
  \<^verbatim>\<open>meta.WritePageHeader(w, col, dataLen, compressedLen, count)\<close>: the call is logged
  and the header bytes go to \<open>w\<close>.
\<close>

definition Metadata_WritePageHeader ::
  "collab \<Rightarrow> Metadata \<Rightarrow> WriteCounter \<Rightarrow> string \<Rightarrow> int \<Rightarrow> int \<Rightarrow> int
     \<Rightarrow> WriteCounter \<times> Metadata \<times> error option" where
  "Metadata_WritePageHeader c meta w cl dataLen compressedLen count =
     (case c_WritePageHeader c cl dataLen compressedLen count of
        Inl e \<Rightarrow> (w, meta @ [Call_WritePageHeader cl dataLen compressedLen count], Some e)
      | Inr hdr \<Rightarrow>
          (case WriteCounter_Write w hdr of
             (w', k, err) \<Rightarrow>
               (w', meta @ [Call_WritePageHeader cl dataLen compressedLen count], err)))"

text \<open>\<^verbatim>\<open>meta.Footer(w)\<close>.\<close>

definition Metadata_Footer ::
  "collab \<Rightarrow> Metadata \<Rightarrow> WriteCounter \<Rightarrow> WriteCounter \<times> Metadata \<times> error option" where
  "Metadata_Footer c meta w =
     (case c_Footer c meta of
        Inl e \<Rightarrow> (w, meta @ [Call_Footer], Some e)
      | Inr bs \<Rightarrow>
          (case WriteCounter_Write w bs of (w', k, err) \<Rightarrow> (w', meta @ [Call_Footer], err)))"

subsection \<open>Writing a page\<close>

text \<open>\<^verbatim>\<open>RequiredField.doWrite\<close>.\<close>

definition RequiredField_doWrite ::
  "collab \<Rightarrow> 'a RequiredField_scheme \<Rightarrow> WriteCounter \<Rightarrow> Metadata \<Rightarrow> byte list \<Rightarrow> int
     \<Rightarrow> WriteCounter \<times> Metadata \<times> error option" where
  "RequiredField_doWrite c f w meta vs count =
     (let compressed = c_snappy_Encode c vs in
      case Metadata_WritePageHeader c meta w (col f) (int (length vs))
             (int (length compressed)) count of
        (w', meta', Some e) \<Rightarrow> (w', meta', Some e)
      | (w', meta', None) \<Rightarrow>
          (case WriteCounter_Write w' compressed of (w'', k, err) \<Rightarrow> (w'', meta', err)))"

text \<open>
  \<^verbatim>\<open>OptionalField.doWrite\<close>.  \<open>wc\<close> counts what is written into the local
  \<^verbatim>\<open>bytes.Buffer\<close>: first the levels (by \<^verbatim>\<open>parquet.WriteLevels(wc, f.defs)\<close>), then the
  value bytes (by \<^verbatim>\<open>wc.Write(vals)\<close>).  The parameter \<open>count\<close> is not used.
\<close>

definition OptionalField_doWrite ::
  "collab \<Rightarrow> 'a OptionalField_scheme \<Rightarrow> WriteCounter \<Rightarrow> Metadata \<Rightarrow> byte list \<Rightarrow> int
     \<Rightarrow> WriteCounter \<times> Metadata \<times> error option" where
  "OptionalField_doWrite c f w meta vs count =
     (let wc = \<lparr>wc_n = 0, wc_w = \<lparr>written = [], room = None\<rparr>\<rparr> in
      case c_WriteLevels c (defs f) of
        Inl e \<Rightarrow> (w, meta, Some e)
      | Inr lv \<Rightarrow>
          (case WriteCounter_Write wc lv of
             (wc1, k1, Some e) \<Rightarrow> (w, meta, Some e)
           | (wc1, k1, None) \<Rightarrow>
               (case WriteCounter_Write wc1 vs of
                  (wc2, k2, Some e) \<Rightarrow> (w, meta, Some e)
                | (wc2, k2, None) \<Rightarrow>
                    (let compressed = c_snappy_Encode c (written (wc_w wc2)) in
                     case Metadata_WritePageHeader c meta w (col_o f) (wc_n wc2)
                            (int (length compressed)) (int (length (defs f))) of
                       (w', meta', Some e) \<Rightarrow> (w', meta', Some e)
                     | (w', meta', None) \<Rightarrow>
                         (case WriteCounter_Write w' compressed of
                            (w'', k, err) \<Rightarrow> (w'', meta', err))))))"

text \<open>
  \<^verbatim>\<open>Field.Write\<close>: each method encodes its values (\<open>Field_payload\<close>) and calls
  \<^verbatim>\<open>f.doWrite(w, meta, buf.Bytes(), len(f.vals))\<close>.
\<close>

fun Field_Write ::
  "collab \<Rightarrow> 'r Field \<Rightarrow> WriteCounter \<Rightarrow> Metadata \<Rightarrow> WriteCounter \<times> Metadata \<times> error option"
  where
  "Field_Write c (Uint32Field f) w meta =
     RequiredField_doWrite c f w meta (Field_payload (Uint32Field f)) (int (length (vals f)))"
| "Field_Write c (Uint32OptionalField f) w meta =
     OptionalField_doWrite c f w meta (Field_payload (Uint32OptionalField f))
       (int (length (vals_o f)))"
| "Field_Write c (Int32Field f) w meta =
     RequiredField_doWrite c f w meta (Field_payload (Int32Field f)) (int (length (vals f)))"
| "Field_Write c (Int32OptionalField f) w meta =
     OptionalField_doWrite c f w meta (Field_payload (Int32OptionalField f))
       (int (length (vals_o f)))"
| "Field_Write c (Int64Field f) w meta =
     RequiredField_doWrite c f w meta (Field_payload (Int64Field f)) (int (length (vals f)))"
| "Field_Write c (Int64OptionalField f) w meta =
     OptionalField_doWrite c f w meta (Field_payload (Int64OptionalField f))
       (int (length (vals_o f)))"
| "Field_Write c (Uint64Field f) w meta =
     RequiredField_doWrite c f w meta (Field_payload (Uint64Field f)) (int (length (vals f)))"
| "Field_Write c (Uint64OptionalField f) w meta =
     OptionalField_doWrite c f w meta (Field_payload (Uint64OptionalField f))
       (int (length (vals_o f)))"
| "Field_Write c (Float32Field f) w meta =
     RequiredField_doWrite c f w meta (Field_payload (Float32Field f)) (int (length (vals f)))"
| "Field_Write c (Float32OptionalField f) w meta =
     OptionalField_doWrite c f w meta (Field_payload (Float32OptionalField f))
       (int (length (vals_o f)))"
| "Field_Write c (BoolField f) w meta =
     RequiredField_doWrite c f w meta (Field_payload (BoolField f)) (int (length (vals f)))"
| "Field_Write c (BoolOptionalField f) w meta =
     OptionalField_doWrite c f w meta (Field_payload (BoolOptionalField f))
       (int (length (vals_o f)))"
| "Field_Write c (StringField f) w meta =
     RequiredField_doWrite c f w meta (Field_payload (StringField f)) (int (length (vals f)))"
| "Field_Write c (StringOptionalField f) w meta =
     OptionalField_doWrite c f w meta (Field_payload (StringOptionalField f))
       (int (length (vals_o f)))"

subsection \<open>\<^verbatim>\<open>ParquetWriter\<close>\<close>

text \<open>
  The struct \<^verbatim>\<open>ParquetWriter\<close>: \<^verbatim>\<open>fields\<close>, \<^verbatim>\<open>len\<close>, \<^verbatim>\<open>child\<close> and \<^verbatim>\<open>max\<close>.  The
  pointers \<^verbatim>\<open>meta\<close> and \<^verbatim>\<open>w\<close> are shared by the whole chain (a child is built with
  \<^verbatim>\<open>withMeta(p.meta)\<close> around \<^verbatim>\<open>p.w\<close>, and only the root's \<^verbatim>\<open>p.w\<close> and \<^verbatim>\<open>p.meta\<close> are
  ever written to), so the \<^verbatim>\<open>WriteCounter\<close> and the \<^verbatim>\<open>Metadata\<close> are passed beside the
  chain.  \<^verbatim>\<open>len\<close> and \<^verbatim>\<open>max\<close> are Go \<^verbatim>\<open>int\<close>; \<^verbatim>\<open>len\<close> only counts up from 0 by one per
  buffered record and cannot reach 2^63.
\<close>

datatype 'r ParquetWriter =
  ParquetWriter (pw_fields: "'r Field list") (pw_len: int)
    (pw_child: "'r ParquetWriter option") (pw_max: int)

definition PAR1 :: "byte list" where
  "PAR1 = [0x50, 0x41, 0x52, 0x31]"

text \<open>
  The options of the template: \<^verbatim>\<open>MaxPageSize(m)\<close>, \<^verbatim>\<open>begin\<close> and \<^verbatim>\<open>withMeta(m)\<close>.  The
  state they act on is the writer under construction; \<^verbatim>\<open>p.meta\<close> may still be nil.
\<close>

datatype opt = MaxPageSize int | Begin | WithMeta Metadata

fun apply_opt ::
  "opt \<Rightarrow> 'r ParquetWriter \<times> WriteCounter \<times> Metadata option
     \<Rightarrow> ('r ParquetWriter \<times> WriteCounter \<times> Metadata option) \<times> error option" where
  "apply_opt (MaxPageSize m) (p, w, meta) =
     ((ParquetWriter (pw_fields p) (pw_len p) (pw_child p) m, w, meta), None)"
| "apply_opt Begin (p, w, meta) =
     (case WriteCounter_Write w PAR1 of (w', k, err) \<Rightarrow> ((p, w', meta), err))"
| "apply_opt (WithMeta m) (p, w, meta) = ((p, w, Some m), None)"

text \<open>The loop over \<^verbatim>\<open>opts\<close> in \<^verbatim>\<open>newParquetWriter\<close>: the first error ends it.\<close>

fun apply_opts ::
  "opt list \<Rightarrow> 'r ParquetWriter \<times> WriteCounter \<times> Metadata option
     \<Rightarrow> ('r ParquetWriter \<times> WriteCounter \<times> Metadata option) \<times> error option" where
  "apply_opts [] st = (st, None)"
| "apply_opts (opt # opts) st =
     (case apply_opt opt st of
        (st', Some e) \<Rightarrow> (st', Some e)
      | (st', None) \<Rightarrow> apply_opts opts st')"

text \<open>
  \<^verbatim>\<open>newParquetWriter(w, opts...)\<close> and \<^verbatim>\<open>NewParquetWriter(w, opts...)\<close>.  \<open>Fs\<close> is the
  result of the generated function \<^verbatim>\<open>Fields()\<close>.  On an error the constructor returns
  \<^verbatim>\<open>nil, err\<close>.
\<close>

definition newParquetWriter ::
  "'r Field list \<Rightarrow> sink \<Rightarrow> opt list
     \<Rightarrow> error + ('r ParquetWriter \<times> WriteCounter \<times> Metadata)" where
  "newParquetWriter Fs s opts =
     (case apply_opts opts (ParquetWriter Fs 0 None 1000, \<lparr>wc_n = 0, wc_w = s\<rparr>, None) of
        (st, Some e) \<Rightarrow> Inl e
      | ((p, w, meta), None) \<Rightarrow>
          Inr (p, w, (case meta of
                        None \<Rightarrow> [Call_New (map Field_Schema Fs)]
                      | Some m \<Rightarrow> m)))"

definition NewParquetWriter ::
  "'r Field list \<Rightarrow> sink \<Rightarrow> opt list
     \<Rightarrow> error + ('r ParquetWriter \<times> WriteCounter \<times> Metadata)" where
  "NewParquetWriter Fs s opts = newParquetWriter Fs s (opts @ [Begin])"

text \<open>
  \<^verbatim>\<open>ParquetWriter.Add\<close>.  A full writer hands the record to its child, which it first
  creates with \<^verbatim>\<open>newParquetWriter(p.w, MaxPageSize(p.max), withMeta(p.meta))\<close> (fresh
  fields, length 0, the same \<^verbatim>\<open>max\<close>) when it has none.  The recursion need not end
  (with \<^verbatim>\<open>max\<close> 0 every new child is full at once), so the result is an option: \<open>None\<close>
  when the call does not return.
\<close>

partial_function (option) ParquetWriter_Add ::
  "'r Field list \<Rightarrow> 'r ParquetWriter \<Rightarrow> 'r \<Rightarrow> 'r ParquetWriter option" where
  "ParquetWriter_Add Fs p rec =
     (if pw_len p = pw_max p then
        Option.bind
          (ParquetWriter_Add Fs
             (case pw_child p of
                None \<Rightarrow> ParquetWriter Fs 0 None (pw_max p)
              | Some ch \<Rightarrow> ch) rec)
          (\<lambda>ch'. Some (ParquetWriter (pw_fields p) (pw_len p) (Some ch') (pw_max p)))
      else
        Some (ParquetWriter (map (\<lambda>f. Field_Add f rec) (pw_fields p)) (pw_len p + 1)
                (pw_child p) (pw_max p)))"

declare ParquetWriter_Add.simps [code]

text \<open>Adding the records of a list in order.\<close>

fun ParquetWriter_Adds ::
  "'r Field list \<Rightarrow> 'r ParquetWriter \<Rightarrow> 'r list \<Rightarrow> 'r ParquetWriter option" where
  "ParquetWriter_Adds Fs p [] = Some p"
| "ParquetWriter_Adds Fs p (rec # recs) =
     (case ParquetWriter_Add Fs p rec of
        None \<Rightarrow> None
      | Some p' \<Rightarrow> ParquetWriter_Adds Fs p' recs)"

text \<open>
  The inner loop of \<^verbatim>\<open>ParquetWriter.Write\<close>:
  \<^verbatim>\<open>for child := p.child; child != nil; child = child.child\<close>, writing
  \<^verbatim>\<open>child.fields[i]\<close>.
\<close>

fun Write_children ::
  "collab \<Rightarrow> nat \<Rightarrow> 'r ParquetWriter option \<Rightarrow> WriteCounter \<Rightarrow> Metadata
     \<Rightarrow> WriteCounter \<times> Metadata \<times> error option" where
  "Write_children c i None w meta = (w, meta, None)"
| "Write_children c i (Some (ParquetWriter fs l ch m)) w meta =
     (if i < length fs then
        (case Field_Write c (fs ! i) w meta of
           (w', meta', Some e) \<Rightarrow> (w', meta', Some e)
         | (w', meta', None) \<Rightarrow> Write_children c i ch w' meta')
      else (w, meta, Some PanicIndexOutOfRange))"

text \<open>
  The outer loop \<^verbatim>\<open>for i, f := range p.fields\<close>: \<open>i\<close> is the index of the head of the
  fields still to write.
\<close>

fun Write_fields ::
  "collab \<Rightarrow> 'r ParquetWriter option \<Rightarrow> nat \<Rightarrow> 'r Field list \<Rightarrow> WriteCounter \<Rightarrow> Metadata
     \<Rightarrow> WriteCounter \<times> Metadata \<times> error option" where
  "Write_fields c ch i [] w meta = (w, meta, None)"
| "Write_fields c ch i (f # fs) w meta =
     (case Field_Write c f w meta of
        (w', meta', Some e) \<Rightarrow> (w', meta', Some e)
      | (w', meta', None) \<Rightarrow>
          (case Write_children c i ch w' meta' of
             (w'', meta'', Some e) \<Rightarrow> (w'', meta'', Some e)
           | (w'', meta'', None) \<Rightarrow> Write_fields c ch (Suc i) fs w'' meta''))"

text \<open>
  \<^verbatim>\<open>ParquetWriter.Write\<close>: the two loops, then the reset (\<^verbatim>\<open>p.fields = Fields()\<close>,
  \<^verbatim>\<open>p.child = nil\<close>, \<^verbatim>\<open>p.len = 0\<close>) and \<^verbatim>\<open>p.meta.StartRowGroup(schema...)\<close>.
\<close>

definition ParquetWriter_Write ::
  "collab \<Rightarrow> 'r Field list \<Rightarrow> 'r ParquetWriter \<Rightarrow> WriteCounter \<Rightarrow> Metadata
     \<Rightarrow> 'r ParquetWriter \<times> WriteCounter \<times> Metadata \<times> error option" where
  "ParquetWriter_Write c Fs p w meta =
     (case Write_fields c (pw_child p) 0 (pw_fields p) w meta of
        (w', meta', Some e) \<Rightarrow> (p, w', meta', Some e)
      | (w', meta', None) \<Rightarrow>
          (ParquetWriter Fs 0 None (pw_max p), w',
           meta' @ [Call_StartRowGroup (map Field_Schema Fs)], None))"

text \<open>\<^verbatim>\<open>ParquetWriter.Close\<close>.\<close>

definition ParquetWriter_Close ::
  "collab \<Rightarrow> WriteCounter \<Rightarrow> Metadata \<Rightarrow> WriteCounter \<times> Metadata \<times> error option" where
  "ParquetWriter_Close c w meta =
     (case Metadata_Footer c meta w of
        (w', meta', Some e) \<Rightarrow> (w', meta', Some e)
      | (w', meta', None) \<Rightarrow>
          (case WriteCounter_Write w' PAR1 of (w'', k, err) \<Rightarrow> (w'', meta', err)))"

subsection \<open>Reading a page\<close>

text \<open>
  The \<^verbatim>\<open>io.ReadSeeker\<close> under the reader is a byte sequence with a position.
  \<^verbatim>\<open>r.Read(p)\<close> for a buffer of \<open>k\<close> zero bytes, as \<^verbatim>\<open>bytes.Reader\<close> does it: at the end
  of the data it returns \<^verbatim>\<open>io.EOF\<close>; otherwise it fills \<open>p\<close> with the bytes that are
  left, at most \<open>k\<close>, and returns no error, also when they are fewer than \<open>k\<close>.  The
  result holds the buffer after the call.
\<close>

record ReadSeeker =
  rs_data :: "byte list"
  rs_pos :: nat

definition ReadSeeker_Read :: "ReadSeeker \<Rightarrow> nat \<Rightarrow> ReadSeeker \<times> byte list \<times> error option" where
  "ReadSeeker_Read r k =
     (if length (rs_data r) \<le> rs_pos r then (r, replicate k 0, Some EOF)
      else
        (let bs = take k (drop (rs_pos r) (rs_data r))
         in (r\<lparr>rs_pos := rs_pos r + length bs\<rparr>, bs @ replicate (k - length bs) 0, None)))"

text \<open>
  The first statements of the loop body of both \<^verbatim>\<open>doRead\<close> methods: the page header,
  \<^verbatim>\<open>compressed := make([]byte, ph.CompressedPageSize)\<close> (a negative size panics), one
  \<^verbatim>\<open>r.Read(compressed)\<close> and \<^verbatim>\<open>snappy.Decode\<close>.
\<close>

definition read_page ::
  "collab \<Rightarrow> ReadSeeker \<Rightarrow> ReadSeeker \<times> (error + (byte list \<times> PageHeader))" where
  "read_page c r =
     (case c_PageHeader c (drop (rs_pos r) (rs_data r)) of
        Inl e \<Rightarrow> (r, Inl e)
      | Inr (ph, k) \<Rightarrow>
          (let r1 = r\<lparr>rs_pos := rs_pos r + Suc k\<rparr> in
           if ph_CompressedPageSize ph < 0 then (r1, Inl PanicMakeSlice)
           else
             (case ReadSeeker_Read r1 (nat (ph_CompressedPageSize ph)) of
                (r2, compressed, Some e) \<Rightarrow> (r2, Inl e)
              | (r2, compressed, None) \<Rightarrow>
                  (case c_snappy_Decode c compressed of
                     Inl e \<Rightarrow> (r2, Inl e)
                   | Inr data \<Rightarrow> (r2, Inr (data, ph))))))"

text \<open>
  The loop \<^verbatim>\<open>for nRead < pos.N\<close> of \<^verbatim>\<open>RequiredField.doRead\<close>.  It ends because every page
  that is read moves the position forward.
\<close>

function RequiredField_doRead_loop ::
  "collab \<Rightarrow> ReadSeeker \<Rightarrow> int \<Rightarrow> int \<Rightarrow> byte list \<Rightarrow> ReadSeeker \<times> (error + byte list)" where
  "RequiredField_doRead_loop c r N nRead out =
     (if nRead < N then
        (case read_page c r of
           (r', Inl e) \<Rightarrow> (r', Inl e)
         | (r', Inr (data, ph)) \<Rightarrow>
             (case ph_NumValues ph of
                None \<Rightarrow> (r', Inl PanicNilDeref)
              | Some nv \<Rightarrow> RequiredField_doRead_loop c r' N (nRead + nv) (out @ data)))
      else (r, Inr out))"
  by pat_completeness auto
termination
  by (relation "measure (\<lambda>(c, r, N, nRead, out). length (rs_data r) - rs_pos r)")
     (auto simp: read_page_def ReadSeeker_Read_def Let_def
        split: sum.splits prod.splits if_splits option.splits)

definition RequiredField_doRead ::
  "collab \<Rightarrow> ReadSeeker \<Rightarrow> Position \<Rightarrow> ReadSeeker \<times> (error + byte list)" where
  "RequiredField_doRead c r pos = RequiredField_doRead_loop c r (pos_N pos) 0 []"

text \<open>
  The loop of \<^verbatim>\<open>OptionalField.doRead\<close>: after decompression the levels are read and
  appended to \<^verbatim>\<open>f.defs\<close>, and \<^verbatim>\<open>uncompressed[l:]\<close> (a panic when \<open>l\<close> is out of range)
  is appended to \<open>out\<close>.
\<close>

function OptionalField_doRead_loop ::
  "collab \<Rightarrow> ReadSeeker \<Rightarrow> int \<Rightarrow> int \<Rightarrow> byte list \<Rightarrow> int list
     \<Rightarrow> ReadSeeker \<times> (error + (byte list \<times> int list))" where
  "OptionalField_doRead_loop c r N nRead out ds =
     (if nRead < N then
        (case read_page c r of
           (r', Inl e) \<Rightarrow> (r', Inl e)
         | (r', Inr (uncompressed, ph)) \<Rightarrow>
             (case c_ReadLevels c uncompressed of
                Inl e \<Rightarrow> (r', Inl e)
              | Inr (lv, l) \<Rightarrow>
                  if l < 0 \<or> int (length uncompressed) < l then (r', Inl PanicSliceBounds)
                  else
                    (case ph_NumValues ph of
                       None \<Rightarrow> (r', Inl PanicNilDeref)
                     | Some nv \<Rightarrow>
                         OptionalField_doRead_loop c r' N (nRead + nv)
                           (out @ drop (nat l) uncompressed) (ds @ lv))))
      else (r, Inr (out, ds)))"
  by pat_completeness auto
termination
  by (relation "measure (\<lambda>(c, r, N, nRead, out, ds). length (rs_data r) - rs_pos r)")
     (auto simp: read_page_def ReadSeeker_Read_def Let_def
        split: sum.splits prod.splits if_splits option.splits)

text \<open>
  \<^verbatim>\<open>OptionalField.doRead\<close>: the result is the levels \<^verbatim>\<open>f.defs\<close> after the call and the
  value bytes of the pages read.
\<close>

definition OptionalField_doRead ::
  "collab \<Rightarrow> int list \<Rightarrow> ReadSeeker \<Rightarrow> Position
     \<Rightarrow> ReadSeeker \<times> (error + (byte list \<times> int list))" where
  "OptionalField_doRead c ds r pos = OptionalField_doRead_loop c r (pos_N pos) 0 [] ds"

subsection \<open>Decoders\<close>

text \<open>A little-endian value from its bytes.\<close>

definition from_le :: "byte list \<Rightarrow> 'a::len word" where
  "from_le bs = foldr (\<lambda>b acc. ucast b OR push_bit 8 acc) bs 0"

text \<open>
  \<^verbatim>\<open>binary.Read(rr, binary.LittleEndian, &v)\<close> for a slice \<open>v\<close> of \<open>n\<close> values of
  \<open>sz\<close> bytes each, on a buffer holding \<open>bs\<close>: it needs \<open>sz * n\<close> bytes
  (\<^verbatim>\<open>io.ReadFull\<close>: \<^verbatim>\<open>io.EOF\<close> when bytes are needed and there is none,
  \<^verbatim>\<open>io.ErrUnexpectedEOF\<close> when there are too few).
\<close>

definition binary_Read :: "nat \<Rightarrow> byte list \<Rightarrow> nat \<Rightarrow> error + 'a::len word list" where
  "binary_Read sz bs n =
     (if length bs < sz * n then Inl (if bs = [] then EOF else UnexpectedEOF)
      else Inr (map (\<lambda>i. from_le (take sz (drop (i * sz) bs))) [0..<n]))"

text \<open>
  One string, as the loops of \<^verbatim>\<open>StringField.Read\<close> and
  \<^verbatim>\<open>StringOptionalField.Read\<close> read it from the buffer \<open>rr\<close>: the \<^verbatim>\<open>int32\<close> length
  \<open>x\<close>, \<^verbatim>\<open>s := make([]byte, x)\<close> (a negative \<open>x\<close> panics) and one \<^verbatim>\<open>rr.Read(s)\<close>, which
  returns \<^verbatim>\<open>io.EOF\<close> on an empty buffer when \<open>x > 0\<close> and otherwise fills \<open>s\<close> with the
  bytes that are left, at most \<open>x\<close>.  The result is \<open>s\<close> and the rest of the buffer.
\<close>

definition read_string :: "byte list \<Rightarrow> error + (byte list \<times> byte list)" where
  "read_string rr =
     (if length rr < 4 then Inl (if rr = [] then EOF else UnexpectedEOF)
      else
        (let x = sint (from_le (take 4 rr) :: 32 word); rr1 = drop 4 rr in
         if x < 0 then Inl PanicMakeSlice
         else if rr1 = [] \<and> 0 < x then Inl EOF
         else Inr (take (nat x) rr1 @ replicate (nat x - length rr1) 0, drop (nat x) rr1)))"

subsection \<open>\<^verbatim>\<open>Field.Read\<close>\<close>

text \<open>
  When a \<^verbatim>\<open>Read\<close> method returns an error, \<^verbatim>\<open>NewParquetReader\<close> returns \<^verbatim>\<open>nil\<close> and the
  column buffers are out of reach; the model keeps the position of the input and the error.

  \<^verbatim>\<open>Uint32Field.Read\<close> and the other fixed-width required columns (\<open>sz\<close> is the width
  in bytes): \<^verbatim>\<open>v := make([]uint32, int(pos.N))\<close> (a negative \<^verbatim>\<open>pos.N\<close> panics),
  \<^verbatim>\<open>binary.Read\<close>, \<^verbatim>\<open>f.vals = append(f.vals, v...)\<close>.
\<close>

definition TField_Read ::
  "nat \<Rightarrow> collab \<Rightarrow> ('r, 'a::len word) TField \<Rightarrow> ReadSeeker \<Rightarrow> Position
     \<Rightarrow> ReadSeeker \<times> (error + ('r, 'a word) TField)" where
  "TField_Read sz c f r pos =
     (case RequiredField_doRead c r pos of
        (r', Inl e) \<Rightarrow> (r', Inl e)
      | (r', Inr out) \<Rightarrow>
          if pos_N pos < 0 then (r', Inl PanicMakeSlice)
          else
            (case binary_Read sz out (nat (pos_N pos)) of
               Inl e \<Rightarrow> (r', Inl e)
             | Inr v \<Rightarrow> (r', Inr (f\<lparr>vals := vals f @ v\<rparr>))))"

text \<open>
  \<^verbatim>\<open>Uint32OptionalField.Read\<close> and the other fixed-width optional columns:
  \<^verbatim>\<open>v := make([]uint32, f.nVals()-len(f.vals))\<close> after \<^verbatim>\<open>doRead\<close> has appended the
  levels (a negative length panics).
\<close>

definition TOptionalField_Read ::
  "nat \<Rightarrow> collab \<Rightarrow> ('r, 'a::len word) TOptionalField \<Rightarrow> ReadSeeker \<Rightarrow> Position
     \<Rightarrow> ReadSeeker \<times> (error + ('r, 'a word) TOptionalField)" where
  "TOptionalField_Read sz c f r pos =
     (case OptionalField_doRead c (defs f) r pos of
        (r', Inl e) \<Rightarrow> (r', Inl e)
      | (r', Inr (out, ds)) \<Rightarrow>
          if int (nVals ds) - int (length (vals_o f)) < 0 then (r', Inl PanicMakeSlice)
          else
            (case binary_Read sz out (nat (int (nVals ds) - int (length (vals_o f)))) of
               Inl e \<Rightarrow> (r', Inl e)
             | Inr v \<Rightarrow> (r', Inr (f\<lparr>defs := ds, vals_o := vals_o f @ v\<rparr>))))"

text \<open>
  \<^verbatim>\<open>BoolField.Read\<close>: \<^verbatim>\<open>f.vals, err = parquet.GetBools(rr, int(pos.N))\<close>.  The result
  of \<^verbatim>\<open>GetBools\<close> is assigned to \<^verbatim>\<open>f.vals\<close>, not appended.
\<close>

definition BoolField_Read ::
  "collab \<Rightarrow> ('r, bool) TField \<Rightarrow> ReadSeeker \<Rightarrow> Position
     \<Rightarrow> ReadSeeker \<times> (error + ('r, bool) TField)" where
  "BoolField_Read c f r pos =
     (case RequiredField_doRead c r pos of
        (r', Inl e) \<Rightarrow> (r', Inl e)
      | (r', Inr out) \<Rightarrow>
          (case c_GetBools c out (pos_N pos) of
             (v, Some e) \<Rightarrow> (r', Inl e)
           | (v, None) \<Rightarrow> (r', Inr (f\<lparr>vals := v\<rparr>))))"

text \<open>
  \<^verbatim>\<open>BoolOptionalField.Read\<close>:
  \<^verbatim>\<open>v, err := parquet.GetBools(rr, f.nVals()-len(f.vals))\<close>, then
  \<^verbatim>\<open>f.vals = append(f.vals, v...)\<close>.
\<close>

definition BoolOptionalField_Read ::
  "collab \<Rightarrow> ('r, bool) TOptionalField \<Rightarrow> ReadSeeker \<Rightarrow> Position
     \<Rightarrow> ReadSeeker \<times> (error + ('r, bool) TOptionalField)" where
  "BoolOptionalField_Read c f r pos =
     (case OptionalField_doRead c (defs f) r pos of
        (r', Inl e) \<Rightarrow> (r', Inl e)
      | (r', Inr (out, ds)) \<Rightarrow>
          (case c_GetBools c out (int (nVals ds) - int (length (vals_o f))) of
             (v, Some e) \<Rightarrow> (r', Inl e)
           | (v, None) \<Rightarrow> (r', Inr (f\<lparr>defs := ds, vals_o := vals_o f @ v\<rparr>))))"

text \<open>
  The loop \<^verbatim>\<open>for j := 0; j < pos.N; j++\<close> of \<^verbatim>\<open>StringField.Read\<close>, by the number of
  iterations left.
\<close>

fun StringField_Read_loop ::
  "nat \<Rightarrow> byte list \<Rightarrow> byte list list \<Rightarrow> error + byte list list" where
  "StringField_Read_loop 0 rr vs = Inr vs"
| "StringField_Read_loop (Suc n) rr vs =
     (case read_string rr of
        Inl e \<Rightarrow> Inl e
      | Inr (s, rr') \<Rightarrow> StringField_Read_loop n rr' (vs @ [s]))"

definition StringField_Read ::
  "collab \<Rightarrow> ('r, byte list) TField \<Rightarrow> ReadSeeker \<Rightarrow> Position
     \<Rightarrow> ReadSeeker \<times> (error + ('r, byte list) TField)" where
  "StringField_Read c f r pos =
     (case RequiredField_doRead c r pos of
        (r', Inl e) \<Rightarrow> (r', Inl e)
      | (r', Inr out) \<Rightarrow>
          (case StringField_Read_loop (nat (pos_N pos)) out (vals f) of
             Inl e \<Rightarrow> (r', Inl e)
           | Inr vs \<Rightarrow> (r', Inr (f\<lparr>vals := vs\<rparr>))))"

text \<open>
  The loop of \<^verbatim>\<open>StringOptionalField.Read\<close> over the indices \<open>j\<close> still to visit:
  \<^verbatim>\<open>f.defs[start+j]\<close> panics out of range; a level 0 is skipped; any other level reads
  one string.
\<close>

fun StringOptionalField_Read_loop ::
  "int list \<Rightarrow> nat \<Rightarrow> nat list \<Rightarrow> byte list \<Rightarrow> byte list list \<Rightarrow> error + byte list list"
  where
  "StringOptionalField_Read_loop ds start [] rr vs = Inr vs"
| "StringOptionalField_Read_loop ds start (j # js) rr vs =
     (if length ds \<le> start + j then Inl PanicIndexOutOfRange
      else if ds ! (start + j) = 0 then StringOptionalField_Read_loop ds start js rr vs
      else
        (case read_string rr of
           Inl e \<Rightarrow> Inl e
         | Inr (s, rr') \<Rightarrow> StringOptionalField_Read_loop ds start js rr' (vs @ [s])))"

definition StringOptionalField_Read ::
  "collab \<Rightarrow> ('r, byte list) TOptionalField \<Rightarrow> ReadSeeker \<Rightarrow> Position
     \<Rightarrow> ReadSeeker \<times> (error + ('r, byte list) TOptionalField)" where
  "StringOptionalField_Read c f r pos =
     (let start = length (defs f) in
      case OptionalField_doRead c (defs f) r pos of
        (r', Inl e) \<Rightarrow> (r', Inl e)
      | (r', Inr (out, ds)) \<Rightarrow>
          (case StringOptionalField_Read_loop ds start [0..<nat (pos_N pos)] out (vals_o f) of
             Inl e \<Rightarrow> (r', Inl e)
           | Inr vs \<Rightarrow> (r', Inr (f\<lparr>defs := ds, vals_o := vs\<rparr>))))"

text \<open>\<^verbatim>\<open>Field.Read\<close>, dispatched on the dynamic type.\<close>

definition lift_read ::
  "('f \<Rightarrow> 'r Field) \<Rightarrow> ReadSeeker \<times> (error + 'f) \<Rightarrow> ReadSeeker \<times> (error + 'r Field)" where
  "lift_read C res = (case res of (r', Inl e) \<Rightarrow> (r', Inl e) | (r', Inr f') \<Rightarrow> (r', Inr (C f')))"

fun Field_Read ::
  "collab \<Rightarrow> 'r Field \<Rightarrow> ReadSeeker \<Rightarrow> Position \<Rightarrow> ReadSeeker \<times> (error + 'r Field)" where
  "Field_Read c (Uint32Field f) r pos = lift_read Uint32Field (TField_Read 4 c f r pos)"
| "Field_Read c (Uint32OptionalField f) r pos =
     lift_read Uint32OptionalField (TOptionalField_Read 4 c f r pos)"
| "Field_Read c (Int32Field f) r pos = lift_read Int32Field (TField_Read 4 c f r pos)"
| "Field_Read c (Int32OptionalField f) r pos =
     lift_read Int32OptionalField (TOptionalField_Read 4 c f r pos)"
| "Field_Read c (Int64Field f) r pos = lift_read Int64Field (TField_Read 8 c f r pos)"
| "Field_Read c (Int64OptionalField f) r pos =
     lift_read Int64OptionalField (TOptionalField_Read 8 c f r pos)"
| "Field_Read c (Uint64Field f) r pos = lift_read Uint64Field (TField_Read 8 c f r pos)"
| "Field_Read c (Uint64OptionalField f) r pos =
     lift_read Uint64OptionalField (TOptionalField_Read 8 c f r pos)"
| "Field_Read c (Float32Field f) r pos = lift_read Float32Field (TField_Read 4 c f r pos)"
| "Field_Read c (Float32OptionalField f) r pos =
     lift_read Float32OptionalField (TOptionalField_Read 4 c f r pos)"
| "Field_Read c (BoolField f) r pos = lift_read BoolField (BoolField_Read c f r pos)"
| "Field_Read c (BoolOptionalField f) r pos =
     lift_read BoolOptionalField (BoolOptionalField_Read c f r pos)"
| "Field_Read c (StringField f) r pos = lift_read StringField (StringField_Read c f r pos)"
| "Field_Read c (StringOptionalField f) r pos =
     lift_read StringOptionalField (StringOptionalField_Read c f r pos)"

subsection \<open>\<^verbatim>\<open>ParquetReader\<close>\<close>

text \<open>\<^verbatim>\<open>getFields\<close>: the map from column name to column buffer.\<close>

definition getFields :: "'r Field list \<Rightarrow> (string \<rightharpoonup> 'r Field)" where
  "getFields ff = foldl (\<lambda>m f. m(Field_Name f \<mapsto> f)) Map.empty ff"

record 'r ParquetReader =
  pr_fields :: "string \<rightharpoonup> 'r Field"
  pr_index :: int
  pr_cur :: int
  pr_rows :: int
  pr_offsets :: "string \<Rightarrow> Position list"
  pr_meta :: Footer

text \<open>The option of the reader: \<^verbatim>\<open>readerIndex(i)\<close>.\<close>

datatype ropt = readerIndex int

fun apply_ropt :: "int \<Rightarrow> ropt \<Rightarrow> int" where
  "apply_ropt idx (readerIndex i) = i"

text \<open>
  The inner loop of \<^verbatim>\<open>NewParquetReader\<close>, \<^verbatim>\<open>for _, col := range rg.Columns\<close>, in row
  group \<open>i\<close>: the name is the last segment of \<^verbatim>\<open>PathInSchema\<close> (an empty path panics);
  an unknown name is an error; \<^verbatim>\<open>len(offsets) <= pr.index\<close> leaves the loop;
  \<^verbatim>\<open>offsets[i]\<close> panics out of range; then the column is read.  An error that
  \<^verbatim>\<open>f.Read\<close> returns is wrapped (\<^verbatim>\<open>unable to read field\<close>); a panic inside \<^verbatim>\<open>f.Read\<close> is
  not a returned error and passes through unchanged.  The map holds pointers, so the
  buffer read is the one stored under the name.
\<close>

fun read_columns ::
  "collab \<Rightarrow> (string \<Rightarrow> Position list) \<Rightarrow> int \<Rightarrow> nat \<Rightarrow> string list list
     \<Rightarrow> (string \<rightharpoonup> 'r Field) \<Rightarrow> ReadSeeker
     \<Rightarrow> ReadSeeker \<times> (error + (string \<rightharpoonup> 'r Field))" where
  "read_columns c offs idx i [] flds r = (r, Inr flds)"
| "read_columns c offs idx i (path # cols) flds r =
     (if path = [] then (r, Inl PanicIndexOutOfRange)
      else
        (case flds (last path) of
           None \<Rightarrow> (r, Inl (UnknownField (last path)))
         | Some f \<Rightarrow>
             if int (length (offs (Field_Name f))) \<le> idx then (r, Inr flds)
             else if length (offs (Field_Name f)) \<le> i then (r, Inl PanicIndexOutOfRange)
             else
               (case Field_Read c f r (offs (Field_Name f) ! i) of
                  (r', Inl e) \<Rightarrow>
                    (r', Inl (if is_panic e then e else UnableToReadField (Field_Name f) e))
                | (r', Inr f') \<Rightarrow>
                    read_columns c offs idx i cols (flds(last path \<mapsto> f')) r')))"

text \<open>The outer loop \<^verbatim>\<open>for i, rg := range pr.meta.RowGroups()\<close>.\<close>

fun read_row_groups ::
  "collab \<Rightarrow> (string \<Rightarrow> Position list) \<Rightarrow> int \<Rightarrow> nat \<Rightarrow> string list list list
     \<Rightarrow> (string \<rightharpoonup> 'r Field) \<Rightarrow> ReadSeeker
     \<Rightarrow> ReadSeeker \<times> (error + (string \<rightharpoonup> 'r Field))" where
  "read_row_groups c offs idx i [] flds r = (r, Inr flds)"
| "read_row_groups c offs idx i (rg # rgs) flds r =
     (case read_columns c offs idx i rg flds r of
        (r', Inl e) \<Rightarrow> (r', Inl e)
      | (r', Inr flds') \<Rightarrow> read_row_groups c offs idx (Suc i) rgs flds' r')"

text \<open>
  \<^verbatim>\<open>NewParquetReader(r, opts...)\<close> on an input holding \<open>data\<close>: the options, the footer
  (\<^verbatim>\<open>ReadFooter\<close>, \<^verbatim>\<open>Rows\<close>, \<^verbatim>\<open>Offsets\<close>), \<^verbatim>\<open>r.Seek(4, io.SeekStart)\<close> (which does not
  fail on a byte sequence), and the two loops.  The result holds the input with its
  position after the call.
\<close>

definition NewParquetReader ::
  "collab \<Rightarrow> 'r Field list \<Rightarrow> byte list \<Rightarrow> ropt list
     \<Rightarrow> ReadSeeker \<times> (error + 'r ParquetReader)" where
  "NewParquetReader c ff data opts =
     (let idx = foldl apply_ropt 0 opts in
      case c_ReadFooter c data of
        Inl e \<Rightarrow> (\<lparr>rs_data = data, rs_pos = 0\<rparr>, Inl e)
      | Inr ft \<Rightarrow>
          (case ft_Offsets ft of
             Inl e \<Rightarrow> (\<lparr>rs_data = data, rs_pos = 0\<rparr>, Inl e)
           | Inr offs \<Rightarrow>
               (case read_row_groups c offs idx 0 (ft_RowGroups ft) (getFields ff)
                       \<lparr>rs_data = data, rs_pos = 4\<rparr> of
                  (r', Inl e) \<Rightarrow> (r', Inl e)
                | (r', Inr flds) \<Rightarrow>
                    (r', Inr \<lparr>pr_fields = flds, pr_index = idx, pr_cur = 0,
                              pr_rows = ft_Rows ft, pr_offsets = offs, pr_meta = ft\<rparr>))))"

subsection \<open>A sample instance of the collaborators\<close>

text \<open>
  Used only to evaluate the model on concrete inputs: no compression, the levels as a
  count byte followed by one byte per level, a three-byte page header (the low bytes of
  the two sizes and of the count), an empty footer on writing and a given parsed footer
  on reading.
\<close>

definition sample_ReadLevels :: "byte list \<Rightarrow> error + (int list \<times> int)" where
  "sample_ReadLevels bs =
     (case bs of
        [] \<Rightarrow> Inl (CollabError ''levels'')
      | n # rest \<Rightarrow>
          if unat n \<le> length rest
          then Inr (map uint (take (unat n) rest), 1 + int (unat n))
          else Inl (CollabError ''levels''))"

definition sample_PageHeader :: "byte list \<Rightarrow> error + (PageHeader \<times> nat)" where
  "sample_PageHeader bs =
     (case bs of
        d # cs # n # rest \<Rightarrow>
          Inr (\<lparr>ph_CompressedPageSize = uint cs, ph_NumValues = Some (uint n)\<rparr>, 2)
      | _ \<Rightarrow> Inl (CollabError ''page header''))"

text \<open>
  Modelled from the spec: \<^verbatim>\<open>parquet.GetBools\<close> is not in the source files.  Section 4.1:
  booleans are bit-packed LSB-first, value \<open>i\<close> is bit \<open>i mod 8\<close> of byte \<open>i div 8\<close>.
  A negative count is a panic (a slice of negative length).
\<close>

definition sample_GetBools :: "byte list \<Rightarrow> int \<Rightarrow> bool list \<times> error option" where
  "sample_GetBools bs n =
     (if n < 0 then ([], Some PanicMakeSlice)
      else if 8 * int (length bs) < n then ([], Some (CollabError ''not enough data''))
      else (map (\<lambda>i. bit (bs ! (i div 8)) (i mod 8)) [0..<nat n], None))"

definition sample_collab :: "Footer \<Rightarrow> collab" where
  "sample_collab ft =
     \<lparr>c_snappy_Encode = (\<lambda>bs. bs),
      c_snappy_Decode = (\<lambda>bs. Inr bs),
      c_WriteLevels = (\<lambda>ds. Inr (word_of_nat (length ds) # map word_of_int ds)),
      c_ReadLevels = sample_ReadLevels,
      c_WritePageHeader =
        (\<lambda>cl d cs n. Inr [word_of_int d, word_of_int cs, word_of_int n]),
      c_PageHeader = sample_PageHeader,
      c_Footer = (\<lambda>meta. Inr []),
      c_ReadFooter = (\<lambda>bs. Inr ft),
      c_GetBools = sample_GetBools\<rparr>"

definition no_footer :: Footer where
  "no_footer = \<lparr>ft_Rows = 0, ft_Offsets = Inr (\<lambda>n. []), ft_RowGroups = []\<rparr>"

subsection \<open>Notions used to state the properties of the writer\<close>

text \<open>
  The chain of a writer: the writer itself, then its children in chain order
  (\<^verbatim>\<open>p.child\<close>, \<^verbatim>\<open>p.child.child\<close>, ...).
\<close>

fun chain_from :: "'r ParquetWriter option \<Rightarrow> 'r ParquetWriter list" where
  "chain_from None = []"
| "chain_from (Some (ParquetWriter fs l ch m)) = ParquetWriter fs l ch m # chain_from ch"

definition chain :: "'r ParquetWriter \<Rightarrow> 'r ParquetWriter list" where
  "chain p = p # chain_from (pw_child p)"

text \<open>
  The page of a column buffer: the level bytes of an optional column (none for a
  required one), the \<^verbatim>\<open>WritePageHeader\<close> call a successful \<^verbatim>\<open>Write\<close> of the buffer makes,
  and the bytes it sends to the output (the header, then the compressed payload).
\<close>

definition levels_bytes :: "collab \<Rightarrow> 'r Field \<Rightarrow> byte list" where
  "levels_bytes c f =
     (case Field_defs f of
        None \<Rightarrow> []
      | Some ds \<Rightarrow> (case c_WriteLevels c ds of Inl e \<Rightarrow> [] | Inr lv \<Rightarrow> lv))"

definition page_call :: "collab \<Rightarrow> 'r Field \<Rightarrow> meta_call" where
  "page_call c f =
     Call_WritePageHeader (Field_Name f)
       (int (length (levels_bytes c f @ Field_payload f)))
       (int (length (c_snappy_Encode c (levels_bytes c f @ Field_payload f))))
       (int (Field_records f))"

definition page_bytes :: "collab \<Rightarrow> 'r Field \<Rightarrow> byte list" where
  "page_bytes c f =
     (case c_WritePageHeader c (Field_Name f)
             (int (length (levels_bytes c f @ Field_payload f)))
             (int (length (c_snappy_Encode c (levels_bytes c f @ Field_payload f))))
             (int (Field_records f)) of
        Inl e \<Rightarrow> []
      | Inr hdr \<Rightarrow> hdr)
     @ c_snappy_Encode c (levels_bytes c f @ Field_payload f)"

text \<open>The pages of column \<open>i\<close> of the writers \<open>nodes\<close>, in the order of \<open>nodes\<close>.\<close>

definition column_calls :: "collab \<Rightarrow> 'r ParquetWriter list \<Rightarrow> nat \<Rightarrow> meta_call list" where
  "column_calls c nodes i = map (\<lambda>node. page_call c (pw_fields node ! i)) nodes"

definition column_bytes :: "collab \<Rightarrow> 'r ParquetWriter list \<Rightarrow> nat \<Rightarrow> byte list" where
  "column_bytes c nodes i = concat (map (\<lambda>node. page_bytes c (pw_fields node ! i)) nodes)"

text \<open>
  The counter after the bytes \<open>bs\<close> have gone through it to an output that took them
  all.
\<close>

definition wc_add :: "WriteCounter \<Rightarrow> byte list \<Rightarrow> WriteCounter" where
  "wc_add w bs =
     w\<lparr>wc_n := wc_n w + int (length bs),
       wc_w := (wc_w w)\<lparr>written := written (wc_w w) @ bs\<rparr>\<rparr>"

text \<open>
  The collaborators do not fail on the page of the column buffer \<open>f\<close>: its levels are
  encoded and its page header is written.  \<open>pages_ok c nodes i\<close>: every writer of
  \<open>nodes\<close> has a column \<open>i\<close>, and the collaborators do not fail on its page.
\<close>

definition page_ok :: "collab \<Rightarrow> 'r Field \<Rightarrow> bool" where
  "page_ok c f =
     ((case Field_defs f of
         None \<Rightarrow> True
       | Some ds \<Rightarrow> (case c_WriteLevels c ds of Inl e \<Rightarrow> False | Inr lv \<Rightarrow> True)) \<and>
      (case c_WritePageHeader c (Field_Name f)
              (int (length (levels_bytes c f @ Field_payload f)))
              (int (length (c_snappy_Encode c (levels_bytes c f @ Field_payload f))))
              (int (Field_records f)) of
         Inl e \<Rightarrow> False
       | Inr hdr \<Rightarrow> True))"

definition pages_ok :: "collab \<Rightarrow> 'r ParquetWriter list \<Rightarrow> nat \<Rightarrow> bool" where
  "pages_ok c nodes i =
     (\<forall>node \<in> set nodes. i < length (pw_fields node) \<and> page_ok c (pw_fields node ! i))"

text \<open>
  An example: a writer over the columns \<open>a\<close> (required int32) and \<open>b\<close> (required bool)
  of pairs, full with one record, with one full child.
\<close>

definition example_fields :: "32 word list \<Rightarrow> bool list \<Rightarrow> (32 word \<times> bool) Field list" where
  "example_fields as bs =
     [Int32Field \<lparr>col = ''a'', vals = as, val = fst, read = (\<lambda>r v. (v, snd r))\<rparr>,
      BoolField \<lparr>col = ''b'', vals = bs, val = snd, read = (\<lambda>r v. (fst r, v))\<rparr>]"

definition example_writer :: "(32 word \<times> bool) ParquetWriter" where
  "example_writer =
     ParquetWriter (example_fields [1] [True]) 1
       (Some (ParquetWriter (example_fields [2] [False]) 1 None 1)) 1"

definition empty_counter :: WriteCounter where
  "empty_counter = \<lparr>wc_n = 0, wc_w = \<lparr>written = [], room = None\<rparr>\<rparr>"

text \<open>
  The lengths along a chain after one more \<^verbatim>\<open>Add\<close>, for writers of maximum \<open>P\<close>: the
  first writer that is not full takes the record; when all are full a new child with one
  record is appended.
\<close>

fun add_lens :: "int \<Rightarrow> int list \<Rightarrow> int list" where
  "add_lens P [] = [1]"
| "add_lens P (l # L) = (if l = P then l # add_lens P L else (l + 1) # L)"

text \<open>
  Every writer of the chain has maximum \<open>P\<close> and fields with the column names \<open>names\<close>.
\<close>

definition chain_ok :: "string list \<Rightarrow> int \<Rightarrow> 'r ParquetWriter \<Rightarrow> bool" where
  "chain_ok names P p =
     (\<forall>node \<in> set (chain p). pw_max node = P \<and> map Field_Name (pw_fields node) = names)"

text \<open>
  The lengths along the chain of a writer of maximum \<open>P\<close> that was created empty and has
  taken \<open>N\<close> records.
\<close>

definition lens_after :: "nat \<Rightarrow> nat \<Rightarrow> int list" where
  "lens_after P N =
     replicate (N div P) (int P) @
       (if N mod P = 0 then (if N = 0 then [0] else []) else [int (N mod P)])"

text \<open>The number of page-header calls for the column \<open>nm\<close> in a log of calls.\<close>

fun call_col :: "meta_call \<Rightarrow> string option" where
  "call_col (Call_WritePageHeader cl d cs n) = Some cl"
| "call_col _ = None"

definition pages_written :: "string \<Rightarrow> meta_call list \<Rightarrow> nat" where
  "pages_written nm log = length (filter (\<lambda>call. call_col call = Some nm) log)"

definition empty_sink :: sink where
  "empty_sink = \<lparr>written = [], room = None\<rparr>"

text \<open>
  A use of a writer: a sequence of \<^verbatim>\<open>Add\<close> and \<^verbatim>\<open>Write\<close> calls.  \<open>None\<close>: an \<^verbatim>\<open>Add\<close>
  does not return.  The first \<^verbatim>\<open>Write\<close> that returns an error ends the run.
\<close>

datatype 'r cmd = Cmd_Add 'r | Cmd_Write

fun run_cmds ::
  "collab \<Rightarrow> 'r Field list \<Rightarrow> 'r cmd list \<Rightarrow> 'r ParquetWriter \<times> WriteCounter \<times> Metadata
     \<Rightarrow> (('r ParquetWriter \<times> WriteCounter \<times> Metadata) \<times> error option) option" where
  "run_cmds c Fs [] st = Some (st, None)"
| "run_cmds c Fs (Cmd_Add rec # cmds) (p, w, meta) =
     (case ParquetWriter_Add Fs p rec of
        None \<Rightarrow> None
      | Some p' \<Rightarrow> run_cmds c Fs cmds (p', w, meta))"
| "run_cmds c Fs (Cmd_Write # cmds) (p, w, meta) =
     (case ParquetWriter_Write c Fs p w meta of
        (p', w', meta', Some e) \<Rightarrow> Some ((p', w', meta'), Some e)
      | (p', w', meta', None) \<Rightarrow> run_cmds c Fs cmds (p', w', meta'))"

text \<open>
  The page size of the writer \<^verbatim>\<open>NewParquetWriter\<close> returns: the argument of the last
  \<^verbatim>\<open>MaxPageSize\<close> option, and 1000 when there is none.
\<close>

definition opts_max :: "opt list \<Rightarrow> int" where
  "opts_max opts = foldl (\<lambda>m opt. case opt of MaxPageSize k \<Rightarrow> k | _ \<Rightarrow> m) 1000 opts"

text \<open>The collaborators of the writer never return an error.\<close>

definition collab_writes :: "collab \<Rightarrow> bool" where
  "collab_writes c =
     ((\<forall>ds. \<exists>lv. c_WriteLevels c ds = Inr lv) \<and>
      (\<forall>cl d cs n. \<exists>hdr. c_WritePageHeader c cl d cs n = Inr hdr) \<and>
      (\<forall>meta. \<exists>bs. c_Footer c meta = Inr bs))"

text \<open>
  Every writer of the chain has page size 0 and holds no record, so it is full, as is
  every child it will create.
\<close>

definition chain_max0 :: "'r ParquetWriter \<Rightarrow> bool" where
  "chain_max0 p = (\<forall>node \<in> set (chain p). pw_len node = 0 \<and> pw_max node = 0)"

subsection \<open>Notions used to state the properties of the reader\<close>





text \<open>
  Examples for the sample collaborators: an optional string column and an optional
  uint32 column of option values, a page with the levels 1, 1 and the strings
  \<open>a\<close> and \<open>b\<close>, a page with the levels 1, 0, 1 and the values 7 and 9, and a parsed
  footer with one position of one value for every column.
\<close>

definition example_string_column :: "(byte list option, byte list) TOptionalField" where
  "example_string_column = NewTOptionalField (\<lambda>r. r) (\<lambda>r v. v) ''s''"
definition example_uint32_column :: "(32 word option, 32 word) TOptionalField" where
  "example_uint32_column = NewTOptionalField (\<lambda>r. r) (\<lambda>r v. v) ''u''"
definition example_string_page :: "byte list" where
  "example_string_page = [13, 13, 2] @ [2, 1, 1] @ [1, 0, 0, 0, 97] @ [1, 0, 0, 0, 98]"
definition example_uint32_page :: "byte list" where
  "example_uint32_page = [12, 12, 3] @ [3, 1, 0, 1] @ [7, 0, 0, 0] @ [9, 0, 0, 0]"

subsection \<open>Notions used for the round trip of a bool column\<close>

text \<open>
  A schema with the one required bool column \<open>flag\<close> over records that are a bool;
  the parsed footer of a file with one row group holding one column chunk of two values;
  the values of a bool column buffer; and the value bytes of column \<open>i\<close> along a chain,
  page after page, which is what \<^verbatim>\<open>RequiredField.doRead\<close> hands to the decoder when
  the page headers and the compression lose nothing.
\<close>

definition flag_fields :: "bool list \<Rightarrow> bool Field list" where
  "flag_fields vs = [BoolField \<lparr>col = ''flag'', vals = vs, val = (\<lambda>r. r), read = (\<lambda>r v. v)\<rparr>]"
definition flag_footer :: Footer where
  "flag_footer = \<lparr>ft_Rows = 2, ft_Offsets = Inr (\<lambda>n. [\<lparr>pos_N = 2\<rparr>]), ft_RowGroups = [[[''flag'']]]\<rparr>"
fun Field_bools :: "'r Field \<Rightarrow> bool list" where
  "Field_bools (BoolField f) = vals f"
| "Field_bools (BoolOptionalField f) = vals_o f"
| "Field_bools _ = []"
definition chain_payload :: "'r ParquetWriter \<Rightarrow> nat \<Rightarrow> byte list" where
  "chain_payload p i = concat (map (\<lambda>node. Field_payload (pw_fields node ! i)) (chain p))"

section \<open>Properties of the column buffers\<close>

lemma nVals_loop_acc: "nVals_loop ds out = out + length (filter (\<lambda>d. d = 1) ds)"
  by (induction ds arbitrary: out) auto

lemma nVals_count: "nVals ds = length (filter (\<lambda>d. d = 1) ds)"
  by (simp add: nVals_def nVals_loop_acc)

lemma nVals_append: "nVals (xs @ ys) = nVals xs + nVals ys"
  by (simp add: nVals_count)

lemma TOptionalField_Add_defs:
  "length (defs (TOptionalField_Add f r)) = Suc (length (defs f))"
  by (simp add: TOptionalField_Add_def split: option.split)

lemma TOptionalField_Add_balance:
  "int (nVals (defs (TOptionalField_Add f r))) - int (length (vals_o (TOptionalField_Add f r)))
     = int (nVals (defs f)) - int (length (vals_o f))"
  by (simp add: TOptionalField_Add_def nVals_append nVals_count split: option.split)

lemma Field_Add_defs:
  "Field_defs f = Some ds \<Longrightarrow>
     \<exists>ds'. Field_defs (Field_Add f r) = Some ds' \<and> length ds' = Suc (length ds)"
  by (cases f) (auto simp: TOptionalField_Add_defs)

lemma Field_Add_balance:
  "Field_defs f = Some ds \<Longrightarrow>
     \<exists>ds'. Field_defs (Field_Add f r) = Some ds' \<and>
       int (nVals ds') - int (Field_nvals (Field_Add f r)) = int (nVals ds) - int (Field_nvals f)"
  by (cases f) (auto simp: TOptionalField_Add_balance)

lemma Field_adds_invariant:
  "Field_defs f = Some ds \<Longrightarrow>
     \<exists>ds'. Field_defs (foldl Field_Add f rs) = Some ds' \<and>
       length ds' = length ds + length rs \<and>
       int (nVals ds') - int (Field_nvals (foldl Field_Add f rs))
         = int (nVals ds) - int (Field_nvals f)"
proof (induction rs arbitrary: f ds)
  case Nil
  then show ?case by simp
next
  case (Cons r rs)
  from Field_Add_defs [OF Cons.prems, of r] Field_Add_balance [OF Cons.prems, of r]
  obtain d1 where d1: "Field_defs (Field_Add f r) = Some d1"
    and l1: "length d1 = Suc (length ds)"
    and b1: "int (nVals d1) - int (Field_nvals (Field_Add f r))
               = int (nVals ds) - int (Field_nvals f)"
    by auto
  from Cons.IH [OF d1] l1 b1 show ?case by auto
qed

text \<open>
  Claim C3.  An optional column buffer is empty after a reset (\<^verbatim>\<open>Fields()\<close> builds it
  with the \<^verbatim>\<open>New...OptionalField\<close> constructor: no level, no value).  After each
  \<^verbatim>\<open>Add\<close> of a sequence of \<^verbatim>\<open>Add\<close> calls, that is after every prefix \<open>take k rs\<close> of the
  records, the number of definition levels equals the number \<open>k\<close> of records appended
  since the reset, and the number of levels equal to 1 equals the number of buffered
  values.
\<close>

theorem optional_buffer_invariant:
  assumes "Field_defs f = Some []" and "Field_nvals f = 0" and "k \<le> length rs"
  shows "\<exists>ds. Field_defs (foldl Field_Add f (take k rs)) = Some ds \<and>
           length ds = k \<and>
           length (filter (\<lambda>d. d = 1) ds) = Field_nvals (foldl Field_Add f (take k rs))"
proof -
  from Field_adds_invariant [OF assms(1), of "take k rs"] assms(2,3)
  obtain ds where "Field_defs (foldl Field_Add f (take k rs)) = Some ds"
    and "length ds = k"
    and "int (nVals ds) - int (Field_nvals (foldl Field_Add f (take k rs))) = 0"
    by (auto simp: nVals_count)
  then show ?thesis by (auto simp: nVals_count)
qed

theorem optional_buffer_invariant_witness:
  "\<exists>ds. Field_defs (foldl Field_Add
            (Uint32OptionalField (NewTOptionalField (\<lambda>r. r) (\<lambda>r v. v) ''a''))
            (take 2 [Some 7, None, Some 9]))
          = Some ds \<and> length ds = 2 \<and>
          length (filter (\<lambda>d. d = 1) ds)
            = Field_nvals (foldl Field_Add
                (Uint32OptionalField (NewTOptionalField (\<lambda>r. r) (\<lambda>r v. v) ''a''))
                (take 2 [Some 7, None, Some 9]))"
  using optional_buffer_invariant
    [of "Uint32OptionalField (NewTOptionalField (\<lambda>r. r) (\<lambda>r v. v) ''a'')" 2
        "[Some 7, None, Some 9]"]
  by (simp add: NewTOptionalField_def)

text \<open>
  Claim C10.  \<^verbatim>\<open>Scan\<close> on a column buffer with no buffered record (no value in a
  required column, no definition level in an optional one) returns without error and
  leaves the buffer and the target record as they were.  The statement holds for every
  buffer, whatever its inject adapter would do to the record, so the adapter is not
  applied; scanning more often than records are buffered is a no-op.
\<close>

theorem scan_empty_noop:
  assumes "Field_records f = 0"
  shows "Field_Scan f r = Inr (f, r)"
  using assms
  by (cases f)
     (auto simp: Field_records_def req_scan_def opt_scan_def TField_Scan_def
        TOptionalField_Scan_def)

theorem scan_empty_noop_witness:
  "Field_records (Int32Field (NewTField (\<lambda>r. r) (\<lambda>r v. v + 1) ''id'')) = 0 \<and>
   Field_Scan (Int32Field (NewTField (\<lambda>r. r) (\<lambda>r v. v + 1) ''id'')) 5
     = Inr (Int32Field (NewTField (\<lambda>r. r) (\<lambda>r v. v + 1) ''id''), 5)"
  using scan_empty_noop [of "Int32Field (NewTField (\<lambda>r. r) (\<lambda>r v. v + 1) ''id'')" 5]
  by (simp add: Field_records_def NewTField_def)

section \<open>Bit-packing of booleans\<close>

lemma idx_split: "b < 8 \<Longrightarrow> (8 * j + b = k) = (j = k div 8 \<and> b = k mod (8::nat))"
  by auto

lemma bit_byte_or_exp:
  "c < 8 \<Longrightarrow> bit ((x::byte) OR 2 ^ c) b = (bit x b \<or> b = c)"
  by (auto simp: bit_or_iff bit_exp_iff possible_bit_word)

text \<open>The loop invariant after the iterations \<open>0, ..., k - 1\<close>.\<close>

lemma pack_inv:
  "k \<le> length vs \<Longrightarrow>
   length (foldl (packBools_step vs) (replicate ((length vs + 7) div 8) 0) [0..<k])
     = (length vs + 7) div 8 \<and>
   (\<forall>j < (length vs + 7) div 8. \<forall>b < 8.
      bit (foldl (packBools_step vs) (replicate ((length vs + 7) div 8) 0) [0..<k] ! j) b
        = (8 * j + b < k \<and> vs ! (8 * j + b)))"
proof (induction k)
  case 0
  then show ?case by simp
next
  case (Suc k)
  let ?m = "(length vs + 7) div 8"
  let ?buf = "foldl (packBools_step vs) (replicate ?m 0) [0..<k]"
  from Suc have len: "length ?buf = ?m"
    and bits: "\<And>j b. j < ?m \<Longrightarrow> b < 8 \<Longrightarrow>
                 bit (?buf ! j) b = (8 * j + b < k \<and> vs ! (8 * j + b))"
    by auto
  have step: "foldl (packBools_step vs) (replicate ?m 0) [0..<Suc k] = packBools_step vs ?buf k"
    by simp
  show ?case
  proof (cases "vs ! k")
    case False
    have "\<And>j b. b < 8 \<Longrightarrow>
            (8 * j + b < Suc k \<and> vs ! (8 * j + b)) = (8 * j + b < k \<and> vs ! (8 * j + b))"
      using False by (metis less_Suc_eq)
    with False len bits show ?thesis
      unfolding step by (simp add: packBools_step_def)
  next
    case True
    have eq: "\<And>j b. b < 8 \<Longrightarrow> (8 * j + b < Suc k \<and> vs ! (8 * j + b))
        = ((8 * j + b < k \<and> vs ! (8 * j + b)) \<or> (j = k div 8 \<and> b = k mod 8))"
      using True by (auto simp: less_Suc_eq idx_split)
    have "length (packBools_step vs ?buf k) = ?m"
      using len by (simp add: packBools_step_def)
    moreover have "\<forall>j < ?m. \<forall>b < 8. bit (packBools_step vs ?buf k ! j) b
        = (8 * j + b < Suc k \<and> vs ! (8 * j + b))"
    proof (intro allI impI)
      fix j b assume j: "j < ?m" and b: "b < (8::nat)"
      show "bit (packBools_step vs ?buf k ! j) b = (8 * j + b < Suc k \<and> vs ! (8 * j + b))"
      proof (cases "j = k div 8")
        case True
        with \<open>vs ! k\<close> j len
        have "packBools_step vs ?buf k ! j = (?buf ! j) OR push_bit (k mod 8) 1"
          by (simp add: packBools_step_def)
        then show ?thesis using True bits [OF j b] eq [OF b, of j]
          by (simp add: bit_byte_or_exp)
      next
        case False
        with \<open>vs ! k\<close> j len have "packBools_step vs ?buf k ! j = ?buf ! j"
          by (simp add: packBools_step_def)
        then show ?thesis using False bits [OF j b] eq [OF b, of j] by simp
      qed
    qed
    ultimately show ?thesis unfolding step by blast
  qed
qed

lemma packBools_length: "length (packBools vs) = (length vs + 7) div 8"
  using pack_inv [of "length vs" vs] by (simp add: packBools_def)

lemma packBools_bit:
  "j < (length vs + 7) div 8 \<Longrightarrow> b < 8 \<Longrightarrow>
     bit (packBools vs ! j) b = (8 * j + b < length vs \<and> vs ! (8 * j + b))"
  using pack_inv [of "length vs" vs] by (simp add: packBools_def)

lemma packBools_17:
  "packBools [True, False, True, False, True, False, True, False, True, False, True, False,
              True, False, True, False, True] = [0x55, 0x55, 0x01]"
  by code_simp

text \<open>
  Claim C8.  The page payload of a required bool column with \<open>N\<close> buffered values has
  \<open>(N + 7) div 8\<close> bytes; value \<open>i\<close> is bit \<open>i mod 8\<close> of byte \<open>i div 8\<close>; every bit of
  the payload at a position \<open>8 * j + b\<close> that is not below \<open>N\<close> (the trailing bits of
  the last byte) is 0; and 17 alternating values starting with true give the bytes
  0x55, 0x55, 0x01.
\<close>

theorem bool_payload_bit_packed:
  "length (Field_payload (BoolField f)) = (length (vals f) + 7) div 8 \<and>
   (\<forall>i. i < length (vals f) \<longrightarrow>
      bit (Field_payload (BoolField f) ! (i div 8)) (i mod 8) = vals f ! i) \<and>
   (\<forall>j b. j < (length (vals f) + 7) div 8 \<and> b < 8 \<and> length (vals f) \<le> 8 * j + b \<longrightarrow>
      \<not> bit (Field_payload (BoolField f) ! j) b) \<and>
   (vals f = [True, False, True, False, True, False, True, False, True, False, True, False,
              True, False, True, False, True] \<longrightarrow>
      Field_payload (BoolField f) = [0x55, 0x55, 0x01])"
proof (intro conjI allI impI)
  show "length (Field_payload (BoolField f)) = (length (vals f) + 7) div 8"
    by (simp add: packBools_length)
next
  fix i assume i: "i < length (vals f)"
  then have "i div 8 < (length (vals f) + 7) div 8" by auto
  from packBools_bit [OF this, of "i mod 8"] i
  show "bit (Field_payload (BoolField f) ! (i div 8)) (i mod 8) = vals f ! i"
    by simp
next
  fix j b
  assume "j < (length (vals f) + 7) div 8 \<and> b < 8 \<and> length (vals f) \<le> 8 * j + b"
  then show "\<not> bit (Field_payload (BoolField f) ! j) b"
    using packBools_bit [of j "vals f" b] by simp
next
  assume "vals f = [True, False, True, False, True, False, True, False, True, False, True,
                    False, True, False, True, False, True]"
  then show "Field_payload (BoolField f) = [0x55, 0x55, 0x01]"
    by (simp add: packBools_17)
qed

theorem bool_payload_bit_packed_witness:
  "Field_payload (BoolField
      (foldl TField_Add (NewTField (\<lambda>r. r) (\<lambda>r v. v) ''flag'')
         [True, False, True, False, True, False, True, False, True, False, True, False,
          True, False, True, False, True]))
     = [0x55, 0x55, 0x01] \<and>
   bit (Field_payload (BoolField
      (foldl TField_Add (NewTField (\<lambda>r. r) (\<lambda>r v. v) ''flag'') [False, True, True]))
        ! (1 div 8)) (1 mod 8) \<and>
   \<not> bit (Field_payload (BoolField
      (foldl TField_Add (NewTField (\<lambda>r. r) (\<lambda>r v. v) ''flag'') [False, True, True])) ! 0) 3"
  using bool_payload_bit_packed
    [of "foldl TField_Add (NewTField (\<lambda>r. r) (\<lambda>r v. v) ''flag'')
         [True, False, True, False, True, False, True, False, True, False, True, False,
          True, False, True, False, True]"]
    bool_payload_bit_packed
    [of "foldl TField_Add (NewTField (\<lambda>r. r) (\<lambda>r v. v) ''flag'') [False, True, True]"]
  by (simp add: NewTField_def TField_Add_def)

section \<open>The page header of an optional column\<close>

lemma WriteCounter_Write_unbounded:
  "room (wc_w w) = None \<Longrightarrow>
     WriteCounter_Write w p
       = (w\<lparr>wc_n := wc_n w + int (length p),
            wc_w := (wc_w w)\<lparr>written := written (wc_w w) @ p\<rparr>\<rparr>,
          length p, None)"
  by (simp add: WriteCounter_Write_def sink_Write_def)

lemma Metadata_WritePageHeader_log:
  "fst (snd (Metadata_WritePageHeader c meta w cl d cs n))
     = meta @ [Call_WritePageHeader cl d cs n]"
  by (simp add: Metadata_WritePageHeader_def split: sum.split prod.split)

lemma OptionalField_doWrite_log:
  assumes "c_WriteLevels c (defs f) = Inr lv"
  shows "fst (snd (OptionalField_doWrite c f w meta vs count))
     = meta @ [Call_WritePageHeader (col_o f) (int (length lv) + int (length vs))
                 (int (length (c_snappy_Encode c (lv @ vs)))) (int (length (defs f)))]"
  using assms
  by (simp add: OptionalField_doWrite_def WriteCounter_Write_unbounded Let_def
        Metadata_WritePageHeader_log [of c meta w, THEN sym]
      split: prod.split option.split)

text \<open>
  Claim C4, as the code has it.  In \<^verbatim>\<open>OptionalField.doWrite\<close> the levels and the value
  bytes are both written through the counter \<open>wc\<close>, so \<^verbatim>\<open>wc.n\<close>, the uncompressed-size
  argument of \<^verbatim>\<open>WritePageHeader\<close>, is the number of level bytes plus the number of
  encoded value bytes: the length of the whole uncompressed payload \<open>lv @ payload\<close>
  that is compressed.  (\<open>lv\<close> are the bytes \<^verbatim>\<open>parquet.WriteLevels\<close> wrote.)
\<close>

theorem optional_page_uncompressed_size:
  assumes "Field_defs f = Some ds" and "c_WriteLevels c ds = Inr lv"
  shows "fst (snd (Field_Write c f w meta))
     = meta @ [Call_WritePageHeader (Field_Name f)
                 (int (length lv) + int (length (Field_payload f)))
                 (int (length (c_snappy_Encode c (lv @ Field_payload f))))
                 (int (length ds))]"
  using assms by (cases f) (simp_all add: OptionalField_doWrite_log)

theorem optional_page_uncompressed_size_witness:
  "fst (snd (Field_Write (sample_collab no_footer)
      (Uint32OptionalField
         (TOptionalField_Add (NewTOptionalField (\<lambda>r. r) (\<lambda>r v. v) ''a'') (Some 7)))
      \<lparr>wc_n = 0, wc_w = \<lparr>written = [], room = None\<rparr>\<rparr> []))
     = [Call_WritePageHeader ''a'' (2 + 4) 6 1]"
  using optional_page_uncompressed_size
    [of "Uint32OptionalField
           (TOptionalField_Add (NewTOptionalField (\<lambda>r. r) (\<lambda>r v. v) ''a'') (Some 7))"
        "[1]" "sample_collab no_footer" "[1, 1]"
        "\<lparr>wc_n = 0, wc_w = \<lparr>written = [], room = None\<rparr>\<rparr>" "[]"]
  by (simp add: sample_collab_def NewTOptionalField_def TOptionalField_Add_def le32_def)

text \<open>
  Claim C4 as stated fails: for an optional \<^verbatim>\<open>uint32\<close> column holding the one present
  value 7, the level codec of the sample instance writes 2 level bytes, and the
  uncompressed size in the page header is 6, the 2 level bytes and the 4 value bytes.
\<close>

theorem optional_page_size_counterexample:
  "c_WriteLevels (sample_collab no_footer)
     (defs (TOptionalField_Add (NewTOptionalField (\<lambda>r. r) (\<lambda>r v. v) ''a'') (Some (7 :: 32 word))))
     = Inr [1, 1] \<and>
   fst (snd (Field_Write (sample_collab no_footer)
      (Uint32OptionalField
         (TOptionalField_Add (NewTOptionalField (\<lambda>r. r) (\<lambda>r v. v) ''a'') (Some 7)))
      \<lparr>wc_n = 0, wc_w = \<lparr>written = [], room = None\<rparr>\<rparr> []))
     = [Call_WritePageHeader ''a'' 6 6 1] \<and>
   (6 :: int) \<noteq> int (length [1, 1 :: byte])"
  by (simp add: sample_collab_def NewTOptionalField_def TOptionalField_Add_def le32_def
        OptionalField_doWrite_def Metadata_WritePageHeader_def WriteCounter_Write_def
        sink_Write_def)

section \<open>The order of the pages in \<^verbatim>\<open>ParquetWriter.Write\<close>\<close>

lemma WriteCounter_Write_ok:
  "WriteCounter_Write w p = (w', k, None) \<Longrightarrow> written (wc_w w') = written (wc_w w) @ p"
  by (auto simp: WriteCounter_Write_def sink_Write_def split: option.splits if_splits)

lemma WritePageHeader_cases:
  "Metadata_WritePageHeader c meta w cl d cs n = (w', meta', err) \<Longrightarrow>
     meta' = meta @ [Call_WritePageHeader cl d cs n] \<and>
     (err = None \<longrightarrow> (\<exists>hdr. c_WritePageHeader c cl d cs n = Inr hdr \<and>
        written (wc_w w') = written (wc_w w) @ hdr))"
  by (auto simp: Metadata_WritePageHeader_def split: sum.splits prod.splits
           dest: WriteCounter_Write_ok)

lemma RequiredField_doWrite_cases:
  assumes "RequiredField_doWrite c f w meta vs count = (w', meta', err)"
  shows "meta' = meta @ [Call_WritePageHeader (col f) (int (length vs))
                    (int (length (c_snappy_Encode c vs))) count] \<and>
     (err = None \<longrightarrow>
        written (wc_w w') = written (wc_w w) @
          (case c_WritePageHeader c (col f) (int (length vs))
                  (int (length (c_snappy_Encode c vs))) count of Inl e \<Rightarrow> [] | Inr hdr \<Rightarrow> hdr)
          @ c_snappy_Encode c vs)"
  using assms
  by (auto simp: RequiredField_doWrite_def Let_def split: prod.splits option.splits
           dest!: WritePageHeader_cases WriteCounter_Write_ok)

lemma OptionalField_doWrite_cases:
  assumes "OptionalField_doWrite c f w meta vs count = (w', meta', err)"
  shows "(meta' = meta \<and> err \<noteq> None \<or>
          (\<exists>lv. c_WriteLevels c (defs f) = Inr lv \<and>
            meta' = meta @ [Call_WritePageHeader (col_o f) (int (length (lv @ vs)))
                    (int (length (c_snappy_Encode c (lv @ vs)))) (int (length (defs f)))])) \<and>
     (err = None \<longrightarrow>
        (\<exists>lv. c_WriteLevels c (defs f) = Inr lv \<and>
        written (wc_w w') = written (wc_w w) @
          (case c_WritePageHeader c (col_o f) (int (length (lv @ vs)))
                  (int (length (c_snappy_Encode c (lv @ vs)))) (int (length (defs f)))
             of Inl e \<Rightarrow> [] | Inr hdr \<Rightarrow> hdr)
          @ c_snappy_Encode c (lv @ vs)))"
  using assms
  by (auto simp: OptionalField_doWrite_def Let_def WriteCounter_Write_unbounded
           split: prod.splits option.splits sum.splits
           dest!: WritePageHeader_cases WriteCounter_Write_ok)

lemma Field_Write_cases:
  assumes "Field_Write c f w meta = (w', meta', err)"
  shows "(meta' = meta \<and> err \<noteq> None \<or> meta' = meta @ [page_call c f]) \<and>
         (err = None \<longrightarrow> meta' = meta @ [page_call c f] \<and>
            written (wc_w w') = written (wc_w w) @ page_bytes c f)"
  using assms
  apply (cases f)
  apply (auto simp: page_call_def page_bytes_def levels_bytes_def Field_records_def
              dest!: RequiredField_doWrite_cases OptionalField_doWrite_cases)
  done

lemma Write_children_cases:
  "Write_children c i ch w meta = (w', meta', err) \<Longrightarrow>
     (\<exists>k. meta' = meta @ take k (map (\<lambda>node. page_call c (pw_fields node ! i)) (chain_from ch))) \<and>
     (err = None \<longrightarrow>
        meta' = meta @ map (\<lambda>node. page_call c (pw_fields node ! i)) (chain_from ch) \<and>
        written (wc_w w') = written (wc_w w)
          @ concat (map (\<lambda>node. page_bytes c (pw_fields node ! i)) (chain_from ch)))"
proof (induction c i ch w meta arbitrary: w' meta' err rule: Write_children.induct)
  case (1 c i w meta)
  then show ?case by simp
next
  case (2 c i fs l ch m w meta)
  show ?case
  proof (cases "i < length fs")
    case False
    with 2(2) have "meta' = meta" "err \<noteq> None" by auto
    then show ?thesis by (auto intro: exI [of _ 0])
  next
    case True
    obtain w1 meta1 e1 where fw: "Field_Write c (fs ! i) w meta = (w1, meta1, e1)"
      by (cases "Field_Write c (fs ! i) w meta") auto
    note fc = Field_Write_cases [OF fw]
    show ?thesis
    proof (cases e1)
      case (Some e)
      with 2(2) True fw have r: "w' = w1" "meta' = meta1" "err = Some e" by auto
      from fc Some have "meta1 = meta \<or> meta1 = meta @ [page_call c (fs ! i)]" by auto
      then show ?thesis
      proof
        assume "meta1 = meta"
        with r show ?thesis by (auto intro: exI [of _ 0])
      next
        assume "meta1 = meta @ [page_call c (fs ! i)]"
        with r show ?thesis by (auto intro: exI [of _ 1])
      qed
    next
      case None
      with 2(2) True fw have rec: "Write_children c i ch w1 meta1 = (w', meta', err)" by auto
      from fc None have m1: "meta1 = meta @ [page_call c (fs ! i)]"
        and b1: "written (wc_w w1) = written (wc_w w) @ page_bytes c (fs ! i)" by auto
      from "2.IH" [OF True fw [symmetric] _ None rec]
      have ih: "(\<exists>k. meta' = meta1 @ take k (map (\<lambda>node. page_call c (pw_fields node ! i)) (chain_from ch)))"
        and ih2: "err = None \<longrightarrow>
          meta' = meta1 @ map (\<lambda>node. page_call c (pw_fields node ! i)) (chain_from ch) \<and>
          written (wc_w w') = written (wc_w w1)
            @ concat (map (\<lambda>node. page_bytes c (pw_fields node ! i)) (chain_from ch))"
        by auto
      from ih obtain k where "meta' = meta1 @ take k (map (\<lambda>node. page_call c (pw_fields node ! i)) (chain_from ch))" ..
      with m1 have "meta' = meta @ take (Suc k) (map (\<lambda>node. page_call c (pw_fields node ! i))
          (chain_from (Some (ParquetWriter fs l ch m))))" by simp
      then have A: "\<exists>k. meta' = meta @ take k (map (\<lambda>node. page_call c (pw_fields node ! i))
          (chain_from (Some (ParquetWriter fs l ch m))))" ..
      from ih2 m1 b1 have B: "err = None \<longrightarrow>
        meta' = meta @ map (\<lambda>node. page_call c (pw_fields node ! i)) (chain_from (Some (ParquetWriter fs l ch m))) \<and>
        written (wc_w w') = written (wc_w w)
          @ concat (map (\<lambda>node. page_bytes c (pw_fields node ! i)) (chain_from (Some (ParquetWriter fs l ch m))))"
        by simp
      from A B show ?thesis by blast
    qed
  qed
qed

lemma Write_children_prefix:
  assumes "Write_children c i ch w meta = (w', meta', err)"
  shows "\<exists>added. meta' = meta @ added \<and> prefix added (column_calls c (chain_from ch) i)"
proof -
  from Write_children_cases [OF assms] obtain k where
    "meta' = meta @ take k (column_calls c (chain_from ch) i)"
    by (auto simp: column_calls_def)
  then show ?thesis by (auto intro: take_is_prefix)
qed

lemma Write_children_ok:
  assumes "Write_children c i ch w meta = (w', meta', None)"
  shows "meta' = meta @ column_calls c (chain_from ch) i"
    and "written (wc_w w') = written (wc_w w) @ column_bytes c (chain_from ch) i"
  using Write_children_cases [OF assms] by (auto simp: column_calls_def column_bytes_def)

lemma Write_fields_cases:
  "i \<le> length fs0 \<Longrightarrow> pw_fields p = fs0 \<Longrightarrow>
   Write_fields c (pw_child p) i (drop i fs0) w meta = (w', meta', err) \<Longrightarrow>
     (\<exists>added. meta' = meta @ added \<and>
        prefix added (concat (map (column_calls c (chain p)) [i..<length fs0]))) \<and>
     (err = None \<longrightarrow>
        meta' = meta @ concat (map (column_calls c (chain p)) [i..<length fs0]) \<and>
        written (wc_w w') = written (wc_w w)
          @ concat (map (column_bytes c (chain p)) [i..<length fs0]))"
proof (induction "length fs0 - i" arbitrary: i w meta)
  case 0
  then show ?case by auto
next
  case (Suc n)
  then have i: "i < length fs0" by simp
  then have dr: "drop i fs0 = fs0 ! i # drop (Suc i) fs0"
    by (simp add: Cons_nth_drop_Suc)
  have up: "[i..<length fs0] = i # [Suc i..<length fs0]"
    using i by (simp add: upt_rec)
  have cc: "column_calls c (chain p) i = page_call c (fs0 ! i) # column_calls c (chain_from (pw_child p)) i"
    using Suc.prems(2) by (simp add: column_calls_def chain_def)
  have cb: "column_bytes c (chain p) i = page_bytes c (fs0 ! i) @ column_bytes c (chain_from (pw_child p)) i"
    using Suc.prems(2) by (simp add: column_bytes_def chain_def)
  let ?rest = "concat (map (column_calls c (chain p)) [Suc i..<length fs0])"
  let ?restb = "concat (map (column_bytes c (chain p)) [Suc i..<length fs0])"
  obtain w1 meta1 e1 where fw: "Field_Write c (fs0 ! i) w meta = (w1, meta1, e1)"
    by (cases "Field_Write c (fs0 ! i) w meta") auto
  note fc = Field_Write_cases [OF fw]
  show ?case
  proof (cases e1)
    case (Some e)
    with Suc.prems(3) fw dr have r: "meta' = meta1" "err = Some e" by auto
    from fc Some have "meta1 = meta @ [] \<or> meta1 = meta @ [page_call c (fs0 ! i)]" by auto
    then show ?thesis using r by (auto simp: up cc)
  next
    case None
    from fc None have m1: "meta1 = meta @ [page_call c (fs0 ! i)]"
      and b1: "written (wc_w w1) = written (wc_w w) @ page_bytes c (fs0 ! i)" by auto
    obtain w2 meta2 e2 where wc: "Write_children c i (pw_child p) w1 meta1 = (w2, meta2, e2)"
      by (cases "Write_children c i (pw_child p) w1 meta1") auto
    show ?thesis
    proof (cases e2)
      case (Some e)
      with Suc.prems(3) fw dr None wc have r: "meta' = meta2" "err = Some e" by auto
      from Write_children_prefix [OF wc] obtain added where
        "meta2 = meta1 @ added" "prefix added (column_calls c (chain_from (pw_child p)) i)"
        by auto
      with m1 r have "meta' = meta @ (page_call c (fs0 ! i) # added)"
        "prefix (page_call c (fs0 ! i) # added) (column_calls c (chain p) i @ ?rest)"
        by (auto simp: cc intro: prefix_prefix)
      with r show ?thesis unfolding up by auto
    next
      case e2: None
      with wc have wc': "Write_children c i (pw_child p) w1 meta1 = (w2, meta2, None)" by simp
      note ok = Write_children_ok [OF wc']
      from Suc.prems(3) fw dr None wc e2
      have rec: "Write_fields c (pw_child p) (Suc i) (drop (Suc i) fs0) w2 meta2 = (w', meta', err)"
        by auto
      have "n = length fs0 - Suc i" using Suc.hyps(2) by simp
      from Suc.hyps(1) [OF this _ Suc.prems(2) rec] i
      have ih1: "\<exists>added. meta' = meta2 @ added \<and> prefix added ?rest"
        and ih2: "err = None \<longrightarrow> meta' = meta2 @ ?rest \<and>
            written (wc_w w') = written (wc_w w2) @ ?restb"
        by auto
      from ih1 obtain added where a: "meta' = meta2 @ added" "prefix added ?rest" by auto
      have m2: "meta2 = meta @ column_calls c (chain p) i"
        using ok(1) m1 by (simp add: cc)
      have b2: "written (wc_w w2) = written (wc_w w) @ column_bytes c (chain p) i"
        using ok(2) b1 by (simp add: cb)
      from a m2 have "meta' = meta @ (column_calls c (chain p) i @ added)"
        "prefix (column_calls c (chain p) i @ added) (column_calls c (chain p) i @ ?rest)"
        by auto
      then have A: "\<exists>added. meta' = meta @ added \<and>
        prefix added (concat (map (column_calls c (chain p)) [i..<length fs0]))"
        unfolding up by (intro exI [of _ "column_calls c (chain p) i @ added"]) simp
      from ih2 m2 b2 have B: "err = None \<longrightarrow>
        meta' = meta @ concat (map (column_calls c (chain p)) [i..<length fs0]) \<and>
        written (wc_w w') = written (wc_w w)
          @ concat (map (column_bytes c (chain p)) [i..<length fs0])"
        unfolding up by simp
      from A B show ?thesis by blast
    qed
  qed
qed

lemma ParquetWriter_Write_cases:
  assumes "ParquetWriter_Write c Fs p w meta = (p', w', meta', err)"
  shows "(\<exists>added. meta' = meta @ added \<and>
           prefix added
             (concat (map (column_calls c (chain p)) [0..<length (pw_fields p)])
                @ [Call_StartRowGroup (map Field_Schema Fs)])) \<and>
         (err = None \<longrightarrow>
            p' = ParquetWriter Fs 0 None (pw_max p) \<and>
            meta' = meta @ concat (map (column_calls c (chain p)) [0..<length (pw_fields p)])
                      @ [Call_StartRowGroup (map Field_Schema Fs)] \<and>
            written (wc_w w') = written (wc_w w)
              @ concat (map (column_bytes c (chain p)) [0..<length (pw_fields p)]))"
proof -
  obtain w1 meta1 e1
    where wf: "Write_fields c (pw_child p) 0 (pw_fields p) w meta = (w1, meta1, e1)"
    by (cases "Write_fields c (pw_child p) 0 (pw_fields p) w meta") auto
  then have wf': "Write_fields c (pw_child p) 0 (drop 0 (pw_fields p)) w meta = (w1, meta1, e1)"
    by simp
  note fc = Write_fields_cases [OF _ refl wf', simplified]
  show ?thesis
  proof (cases e1)
    case None
    with assms wf have "meta' = meta1 @ [Call_StartRowGroup (map Field_Schema Fs)]"
      "w' = w1" "err = None" "p' = ParquetWriter Fs 0 None (pw_max p)"
      by (auto simp: ParquetWriter_Write_def)
    with fc None show ?thesis by auto
  next
    case (Some e)
    with assms wf have "meta' = meta1" "err = Some e"
      by (auto simp: ParquetWriter_Write_def)
    with fc show ?thesis by (auto intro: prefix_prefix)
  qed
qed

text \<open>
  When nothing fails: the output takes every byte and the collaborators do not fail on
  the pages.  Then every page is written in full, and so are all the pages of a column
  and all the columns.
\<close>

lemma wc_add_room [simp]: "room (wc_w (wc_add w bs)) = room (wc_w w)"
  by (simp add: wc_add_def)

lemma wc_add_written [simp]: "written (wc_w (wc_add w bs)) = written (wc_w w) @ bs"
  by (simp add: wc_add_def)

lemma wc_add_n [simp]: "wc_n (wc_add w bs) = wc_n w + int (length bs)"
  by (simp add: wc_add_def)

lemma wc_add_Nil [simp]: "wc_add w [] = w"
  by (simp add: wc_add_def)

lemma wc_add_append: "wc_add (wc_add w xs) ys = wc_add w (xs @ ys)"
  by (simp add: wc_add_def)

lemma WriteCounter_Write_add:
  "room (wc_w w) = None \<Longrightarrow> WriteCounter_Write w p = (wc_add w p, length p, None)"
  by (simp add: WriteCounter_Write_unbounded wc_add_def)

lemma WritePageHeader_add:
  "room (wc_w w) = None \<Longrightarrow> c_WritePageHeader c cl d cs n = Inr hdr \<Longrightarrow>
     Metadata_WritePageHeader c meta w cl d cs n
       = (wc_add w hdr, meta @ [Call_WritePageHeader cl d cs n], None)"
  by (simp add: Metadata_WritePageHeader_def WriteCounter_Write_add)

lemma RequiredField_doWrite_add:
  assumes "room (wc_w w) = None"
    and "c_WritePageHeader c (col f) (int (length vs)) (int (length (c_snappy_Encode c vs))) count
           = Inr hdr"
  shows "RequiredField_doWrite c f w meta vs count
     = (wc_add w (hdr @ c_snappy_Encode c vs),
        meta @ [Call_WritePageHeader (col f) (int (length vs))
                  (int (length (c_snappy_Encode c vs))) count], None)"
  using assms
  by (simp add: RequiredField_doWrite_def Let_def WritePageHeader_add WriteCounter_Write_add
        wc_add_append)

lemma OptionalField_doWrite_add:
  assumes "room (wc_w w) = None" and "c_WriteLevels c (defs f) = Inr lv"
    and "c_WritePageHeader c (col_o f) (int (length (lv @ vs)))
           (int (length (c_snappy_Encode c (lv @ vs)))) (int (length (defs f))) = Inr hdr"
  shows "OptionalField_doWrite c f w meta vs count
     = (wc_add w (hdr @ c_snappy_Encode c (lv @ vs)),
        meta @ [Call_WritePageHeader (col_o f) (int (length (lv @ vs)))
                  (int (length (c_snappy_Encode c (lv @ vs)))) (int (length (defs f)))], None)"
  using assms
  by (simp add: OptionalField_doWrite_def Let_def WritePageHeader_add WriteCounter_Write_add
        WriteCounter_Write_unbounded wc_add_append)

lemma Field_Write_add:
  assumes "room (wc_w w) = None" and "page_ok c f"
  shows "Field_Write c f w meta = (wc_add w (page_bytes c f), meta @ [page_call c f], None)"
  using assms
  by (cases f)
     (auto simp: page_ok_def page_call_def page_bytes_def levels_bytes_def Field_records_def
        RequiredField_doWrite_add OptionalField_doWrite_add split: sum.splits)

lemma Write_children_add:
  "room (wc_w w) = None \<Longrightarrow> pages_ok c (chain_from ch) i \<Longrightarrow>
     Write_children c i ch w meta
       = (wc_add w (column_bytes c (chain_from ch) i),
          meta @ column_calls c (chain_from ch) i, None)"
proof (induction c i ch w meta rule: Write_children.induct)
  case (1 c i w meta)
  then show ?case by (simp add: column_bytes_def column_calls_def)
next
  case (2 c i fs l ch m w meta)
  from "2.prems"(2) have i: "i < length fs" and ok: "page_ok c (fs ! i)"
    and rest: "pages_ok c (chain_from ch) i"
    by (auto simp: pages_ok_def)
  note fw = Field_Write_add [OF "2.prems"(1) ok, of meta]
  have r: "room (wc_w (wc_add w (page_bytes c (fs ! i)))) = None"
    using "2.prems"(1) by simp
  from "2.IH" [OF i fw [symmetric] refl refl r rest] i fw
  show ?case by (simp add: column_bytes_def column_calls_def wc_add_append)
qed

lemma Write_fields_add:
  "i \<le> length fs0 \<Longrightarrow> pw_fields p = fs0 \<Longrightarrow> room (wc_w w) = None \<Longrightarrow>
   \<forall>j < length fs0. pages_ok c (chain p) j \<Longrightarrow>
     Write_fields c (pw_child p) i (drop i fs0) w meta
       = (wc_add w (concat (map (column_bytes c (chain p)) [i..<length fs0])),
          meta @ concat (map (column_calls c (chain p)) [i..<length fs0]), None)"
proof (induction "length fs0 - i" arbitrary: i w meta)
  case 0
  then show ?case by simp
next
  case (Suc n)
  then have i: "i < length fs0" by simp
  then have dr: "drop i fs0 = fs0 ! i # drop (Suc i) fs0"
    by (simp add: Cons_nth_drop_Suc)
  have up: "[i..<length fs0] = i # [Suc i..<length fs0]"
    using i by (simp add: upt_rec)
  from Suc.prems(4) i have pk: "pages_ok c (chain p) i" by simp
  then have ok: "page_ok c (fs0 ! i)" and chk: "pages_ok c (chain_from (pw_child p)) i"
    using Suc.prems(2) by (auto simp: pages_ok_def chain_def)
  have cc: "column_calls c (chain p) i
      = page_call c (fs0 ! i) # column_calls c (chain_from (pw_child p)) i"
    using Suc.prems(2) by (simp add: column_calls_def chain_def)
  have cb: "column_bytes c (chain p) i
      = page_bytes c (fs0 ! i) @ column_bytes c (chain_from (pw_child p)) i"
    using Suc.prems(2) by (simp add: column_bytes_def chain_def)
  note fw = Field_Write_add [OF Suc.prems(3) ok, of meta]
  have r1: "room (wc_w (wc_add w (page_bytes c (fs0 ! i)))) = None"
    using Suc.prems(3) by simp
  note wc = Write_children_add [OF r1 chk, of "meta @ [page_call c (fs0 ! i)]"]
  have r2: "room (wc_w (wc_add w (column_bytes c (chain p) i))) = None"
    using Suc.prems(3) by simp
  have n: "n = length fs0 - Suc i" using Suc.hyps(2) by simp
  from Suc.hyps(1) [OF n _ Suc.prems(2) r2 Suc.prems(4),
      of "meta @ column_calls c (chain p) i"] i
  have ih: "Write_fields c (pw_child p) (Suc i) (drop (Suc i) fs0)
      (wc_add w (column_bytes c (chain p) i)) (meta @ column_calls c (chain p) i)
    = (wc_add (wc_add w (column_bytes c (chain p) i))
         (concat (map (column_bytes c (chain p)) [Suc i..<length fs0])),
       (meta @ column_calls c (chain p) i)
         @ concat (map (column_calls c (chain p)) [Suc i..<length fs0]), None)"
    by simp
  have step: "Write_fields c (pw_child p) i (fs0 ! i # drop (Suc i) fs0) w meta
      = Write_fields c (pw_child p) (Suc i) (drop (Suc i) fs0)
          (wc_add w (column_bytes c (chain p) i)) (meta @ column_calls c (chain p) i)"
    by (simp add: fw wc cc cb wc_add_append)
  show ?case
    unfolding dr up step ih
    by (simp add: wc_add_append)
qed

lemma ParquetWriter_Write_add:
  assumes "room (wc_w w) = None"
    and "\<forall>j < length (pw_fields p). pages_ok c (chain p) j"
  shows "ParquetWriter_Write c Fs p w meta
     = (ParquetWriter Fs 0 None (pw_max p),
        wc_add w (concat (map (column_bytes c (chain p)) [0..<length (pw_fields p)])),
        meta @ concat (map (column_calls c (chain p)) [0..<length (pw_fields p)])
          @ [Call_StartRowGroup (map Field_Schema Fs)], None)"
  using Write_fields_add [OF _ refl assms(1) assms(2), of 0 meta]
  by (simp add: ParquetWriter_Write_def)


text \<open>
  Claim C2.  Let \<open>chain p\<close> be the root writer followed by its \<open>k\<close> chained children.
  \<open>column_calls c (chain p) i\<close> are the pages of column \<open>i\<close>: the root's page first,
  then each child's in chain order.  A \<^verbatim>\<open>Write\<close> that returns no error has made exactly
  these page-header calls, column after column in schema order, before the one
  \<^verbatim>\<open>StartRowGroup\<close> call, and has sent the pages' bytes to the output in the same order.
  A \<^verbatim>\<open>Write\<close> that returns an error has made a prefix of these calls.  And \<^verbatim>\<open>Write\<close>
  does return no error, with exactly this result, when the output takes every byte,
  every writer of the chain has the columns of the root, and the collaborators do not
  fail on any of the pages.
\<close>

theorem flush_write_order:
  assumes "ParquetWriter_Write c Fs p w meta = (p', w', meta', err)"
  shows "(\<exists>added. meta' = meta @ added \<and>
           prefix added
             (concat (map (column_calls c (chain p)) [0..<length (pw_fields p)])
                @ [Call_StartRowGroup (map Field_Schema Fs)])) \<and>
         (err = None \<longrightarrow>
            meta' = meta @ concat (map (column_calls c (chain p)) [0..<length (pw_fields p)])
                      @ [Call_StartRowGroup (map Field_Schema Fs)] \<and>
            written (wc_w w') = written (wc_w w)
              @ concat (map (column_bytes c (chain p)) [0..<length (pw_fields p)])) \<and>
         (room (wc_w w) = None \<and> (\<forall>i < length (pw_fields p). pages_ok c (chain p) i) \<longrightarrow>
            err = None \<and>
            p' = ParquetWriter Fs 0 None (pw_max p) \<and>
            w' = wc_add w (concat (map (column_bytes c (chain p)) [0..<length (pw_fields p)])))"
proof -
  note cs = ParquetWriter_Write_cases [OF assms]
  have "err = None \<and> p' = ParquetWriter Fs 0 None (pw_max p) \<and>
        w' = wc_add w (concat (map (column_bytes c (chain p)) [0..<length (pw_fields p)]))"
    if "room (wc_w w) = None" and "\<forall>i < length (pw_fields p). pages_ok c (chain p) i"
    using ParquetWriter_Write_add [OF that, of Fs meta] assms by simp
  with cs show ?thesis by blast
qed

theorem flush_write_order_witness:
  "ParquetWriter_Write (sample_collab no_footer) [] example_writer empty_counter []
     = (ParquetWriter [] 0 None 1,
        \<lparr>wc_n = 22,
         wc_w = \<lparr>written = [4, 4, 1, 1, 0, 0, 0,  4, 4, 1, 2, 0, 0, 0,  1, 1, 1, 1,  1, 1, 1, 0],
                 room = None\<rparr>\<rparr>,
        [Call_WritePageHeader ''a'' 4 4 1, Call_WritePageHeader ''a'' 4 4 1,
         Call_WritePageHeader ''b'' 1 1 1, Call_WritePageHeader ''b'' 1 1 1,
         Call_StartRowGroup []], None)"
proof -
  let ?c = "sample_collab no_footer"
  obtain p' w' meta' err where
    r: "ParquetWriter_Write ?c [] example_writer empty_counter [] = (p', w', meta', err)"
    by (cases "ParquetWriter_Write ?c [] example_writer empty_counter []") auto
  have room: "room (wc_w empty_counter) = None"
    by (simp add: empty_counter_def)
  have len: "length (pw_fields example_writer) = 2"
    by (simp add: example_writer_def example_fields_def)
  have up: "[0..<2] = [0, Suc 0]"
    by (simp add: numeral_2_eq_2)
  have lt: "i < 2 \<longleftrightarrow> i = 0 \<or> i = Suc 0" for i :: nat
    by auto
  have ok: "\<forall>i < length (pw_fields example_writer). pages_ok ?c (chain example_writer) i"
    unfolding len lt
    by (simp add: pages_ok_def page_ok_def chain_def
          example_writer_def example_fields_def sample_collab_def)
  have calls: "concat (map (column_calls ?c (chain example_writer))
                 [0..<length (pw_fields example_writer)])
      = [Call_WritePageHeader ''a'' 4 4 1, Call_WritePageHeader ''a'' 4 4 1,
         Call_WritePageHeader ''b'' 1 1 1, Call_WritePageHeader ''b'' 1 1 1]"
    unfolding len up
    by (simp add: column_calls_def page_call_def levels_bytes_def chain_def
          Field_records_def example_writer_def example_fields_def sample_collab_def le32_def
          packBools_def packBools_step_def)
  have bytes: "concat (map (column_bytes ?c (chain example_writer))
                 [0..<length (pw_fields example_writer)])
      = [4, 4, 1, 1, 0, 0, 0,  4, 4, 1, 2, 0, 0, 0,  1, 1, 1, 1,  1, 1, 1, 0]"
    unfolding len up
    by (simp add: column_bytes_def page_bytes_def levels_bytes_def chain_def
          Field_records_def example_writer_def example_fields_def sample_collab_def le32_def
          packBools_def packBools_step_def)
  note h = flush_write_order [OF r]
  from h [THEN conjunct2, THEN conjunct2, THEN mp, OF conjI [OF room ok]]
  have e: "err = None" and p: "p' = ParquetWriter [] 0 None (pw_max example_writer)"
    and w: "w' = wc_add empty_counter (concat (map (column_bytes ?c (chain example_writer))
                 [0..<length (pw_fields example_writer)]))"
    by simp_all
  from h [THEN conjunct2, THEN conjunct1, THEN mp, OF e, THEN conjunct1]
  have m: "meta' = concat (map (column_calls ?c (chain example_writer))
                 [0..<length (pw_fields example_writer)]) @ [Call_StartRowGroup []]"
    by simp
  show ?thesis
    unfolding r e p w m calls bytes
    by (simp add: wc_add_def empty_counter_def example_writer_def)
qed

section \<open>The number of pages\<close>

lemma Field_Name_Add [simp]: "Field_Name (Field_Add f r) = Field_Name f"
  by (cases f) (simp_all add: TField_Add_def TOptionalField_Add_def split: option.split)

lemma chain_simps:
  "chain (ParquetWriter fs l None m) = [ParquetWriter fs l None m]"
  "chain (ParquetWriter fs l (Some ch) m) = ParquetWriter fs l (Some ch) m # chain ch"
  by (cases ch; simp add: chain_def)+

lemma Add_fresh:
  "P \<noteq> 0 \<Longrightarrow> ParquetWriter_Add Fs (ParquetWriter Fs 0 None P) r
     = Some (ParquetWriter (map (\<lambda>f. Field_Add f r) Fs) 1 None P)"
  by (subst ParquetWriter_Add.simps) simp

lemma Add_chain:
  "P \<noteq> 0 \<Longrightarrow> chain_ok names P p \<Longrightarrow> map Field_Name Fs = names \<Longrightarrow>
     \<exists>p'. ParquetWriter_Add Fs p r = Some p' \<and> chain_ok names P p' \<and>
       map pw_len (chain p') = add_lens P (map pw_len (chain p))"
proof (induction p)
  case (ParquetWriter fs l ch m)
  from ParquetWriter.prems(2) have m: "m = P" and nm: "map Field_Name fs = names"
    by (cases ch; simp add: chain_ok_def chain_simps)+
  show ?case
  proof (cases "l = P")
    case False
    with m have "ParquetWriter_Add Fs (ParquetWriter fs l ch m) r
      = Some (ParquetWriter (map (\<lambda>f. Field_Add f r) fs) (l + 1) ch m)"
      by (subst ParquetWriter_Add.simps) simp
    moreover have "chain_ok names P (ParquetWriter (map (\<lambda>f. Field_Add f r) fs) (l + 1) ch m)"
      using ParquetWriter.prems(2) nm
      by (cases ch) (auto simp: chain_ok_def chain_simps comp_def)
    moreover have "map pw_len (chain (ParquetWriter (map (\<lambda>f. Field_Add f r) fs) (l + 1) ch m))
      = add_lens P (map pw_len (chain (ParquetWriter fs l ch m)))"
      using False by (cases ch) (auto simp: chain_simps)
    ultimately show ?thesis by blast
  next
    case True
    show ?thesis
    proof (cases ch)
      case None
      with True m ParquetWriter.prems(1)
      have "ParquetWriter_Add Fs (ParquetWriter fs l ch m) r
        = Some (ParquetWriter fs l (Some (ParquetWriter (map (\<lambda>f. Field_Add f r) Fs) 1 None P)) m)"
        by (subst ParquetWriter_Add.simps) (simp add: Add_fresh)
      moreover have "chain_ok names P
         (ParquetWriter fs l (Some (ParquetWriter (map (\<lambda>f. Field_Add f r) Fs) 1 None P)) m)"
        using m nm ParquetWriter.prems(3) by (auto simp: chain_ok_def chain_simps comp_def)
      moreover have "map pw_len (chain
         (ParquetWriter fs l (Some (ParquetWriter (map (\<lambda>f. Field_Add f r) Fs) 1 None P)) m))
        = add_lens P (map pw_len (chain (ParquetWriter fs l ch m)))"
        using True None by (simp add: chain_simps)
      ultimately show ?thesis by blast
    next
      case (Some c)
      then have "chain_ok names P c"
        using ParquetWriter.prems(2) by (auto simp: chain_ok_def chain_simps)
      from ParquetWriter.IH [of c, OF _ ParquetWriter.prems(1) this ParquetWriter.prems(3)] Some
      obtain c' where c': "ParquetWriter_Add Fs c r = Some c'" "chain_ok names P c'"
        "map pw_len (chain c') = add_lens P (map pw_len (chain c))"
        by auto
      from True m Some c'(1)
      have "ParquetWriter_Add Fs (ParquetWriter fs l ch m) r
        = Some (ParquetWriter fs l (Some c') m)"
        by (subst ParquetWriter_Add.simps) simp
      moreover have "chain_ok names P (ParquetWriter fs l (Some c') m)"
        using c'(2) m nm by (auto simp: chain_ok_def chain_simps)
      moreover have "map pw_len (chain (ParquetWriter fs l (Some c') m))
        = add_lens P (map pw_len (chain (ParquetWriter fs l ch m)))"
        using True Some c'(3) by (simp add: chain_simps)
      ultimately show ?thesis by blast
    qed
  qed
qed

lemma add_lens_full: "add_lens P (replicate q P @ T) = replicate q P @ add_lens P T"
  by (induction q) auto

lemma add_lens_after:
  assumes "1 \<le> P"
  shows "add_lens (int P) (lens_after P N) = lens_after P (Suc N)"
proof -
  have r: "replicate (Suc (N div P)) (int P) = replicate (N div P) (int P) @ [int P]"
    by (simp add: replicate_append_same)
  have "N mod P < P" using assms by simp
  then have ne: "N mod P \<noteq> P" by simp
  show ?thesis
    using assms ne unfolding lens_after_def add_lens_full
    by (auto simp: mod_Suc div_Suc r simp del: replicate_Suc)
qed

lemma Adds_chain:
  "1 \<le> P \<Longrightarrow> chain_ok names (int P) p \<Longrightarrow> map Field_Name Fs = names \<Longrightarrow>
   map pw_len (chain p) = lens_after P N \<Longrightarrow>
     \<exists>p'. ParquetWriter_Adds Fs p rs = Some p' \<and> chain_ok names (int P) p' \<and>
       map pw_len (chain p') = lens_after P (N + length rs)"
proof (induction rs arbitrary: p N)
  case Nil
  then show ?case by simp
next
  case (Cons r rs)
  from Cons.prems(1) have "int P \<noteq> 0" by simp
  from Add_chain [OF this Cons.prems(2,3), of r] Cons.prems(4)
  obtain p1 where p1: "ParquetWriter_Add Fs p r = Some p1" "chain_ok names (int P) p1"
    "map pw_len (chain p1) = lens_after P (Suc N)"
    by (auto simp: add_lens_after [OF Cons.prems(1)])
  from Cons.IH [OF Cons.prems(1) p1(2) Cons.prems(3) p1(3)] p1(1)
  show ?case by simp
qed

lemma ceil_div_exact:
  assumes P: "1 \<le> (P::nat)" and m: "N mod P = 0"
  shows "(N + P - 1) div P = N div P"
proof -
  have N: "N = N mod P + N div P * P" by simp
  define X where "X = N div P * P"
  from N m have "N = X" by (simp add: X_def)
  with P have e: "N + P - 1 = (P - 1) + X" by arith
  have "((P - 1) + N div P * P) div P = N div P + (P - 1) div P"
    using P by (subst div_mult_self1) auto
  moreover have "(P - 1) div P = 0" using P by simp
  ultimately show ?thesis unfolding e X_def by (simp only: add_0_right)
qed

lemma ceil_div_inexact:
  assumes P: "1 \<le> (P::nat)" and m: "N mod P \<noteq> 0"
  shows "(N + P - 1) div P = Suc (N div P)"
proof -
  have N: "N = N mod P + N div P * P" by simp
  define X where "X = N div P * P"
  define r where "r = N mod P"
  from N have NX: "N = r + X" by (simp add: X_def r_def)
  from m have r0: "1 \<le> r" by (simp add: r_def)
  have rP: "r < P" using P by (simp add: r_def)
  have S: "Suc (N div P) * P = P + X" by (simp add: X_def)
  from NX r0 P have e: "N + P - 1 = (r - 1) + (P + X)" by arith
  have "((r - 1) + Suc (N div P) * P) div P = Suc (N div P) + (r - 1) div P"
    using P by (subst div_mult_self1) auto
  moreover have "(r - 1) div P = 0" using rP by simp
  ultimately show ?thesis unfolding e S [symmetric] by (simp only: add_0_right)
qed
lemma length_lens_after:
  "1 \<le> P \<Longrightarrow> length (lens_after P N) = (if N = 0 then 1 else (N + P - 1) div P)"
  using ceil_div_exact [of P N] ceil_div_inexact [of P N]
  by (auto simp: lens_after_def)


lemma NewParquetWriter_MaxPageSize:
  assumes "NewParquetWriter Fs s [MaxPageSize m] = Inr (p0, w0, meta0)"
  shows "p0 = ParquetWriter Fs 0 None m"
  using assms
  by (auto simp: NewParquetWriter_def newParquetWriter_def split: prod.splits option.splits)

lemma call_col_page_call [simp]: "call_col (page_call c f) = Some (Field_Name f)"
  by (simp add: page_call_def)

lemma column_calls_cols:
  assumes "chain_ok names P p" and "i < length names"
  shows "map call_col (column_calls c (chain p) i)
           = replicate (length (chain p)) (Some (names ! i))"
proof -
  have "\<And>node. node \<in> set (chain p) \<Longrightarrow> Field_Name (pw_fields node ! i) = names ! i"
  proof -
    fix node assume "node \<in> set (chain p)"
    with assms(1) have nm: "map Field_Name (pw_fields node) = names" by (simp add: chain_ok_def)
    then have "length (pw_fields node) = length names" by (metis length_map)
    with assms(2) nm show "Field_Name (pw_fields node ! i) = names ! i"
      by (metis nth_map)
  qed
  then show ?thesis
    by (simp add: column_calls_def comp_def map_replicate_const [symmetric] cong: map_cong)
qed

lemma count_replicate_cols:
  "length (filter (\<lambda>x. x = Some nm) (concat (map (\<lambda>n. replicate X (Some n)) names)))
     = X * length (filter (\<lambda>n. n = nm) names)"
  by (induction names) auto

lemma pages_written_columns:
  assumes "chain_ok names P p" and "length (pw_fields p) = length names"
  shows "pages_written nm (concat (map (column_calls c (chain p)) [0..<length (pw_fields p)]) @ [Call_StartRowGroup sch])
           = length (chain p) * length (filter (\<lambda>n. n = nm) names)"
proof -
  have "map call_col (concat (map (column_calls c (chain p)) [0..<length names]))
      = concat (map (\<lambda>i. replicate (length (chain p)) (Some (names ! i))) [0..<length names])"
  proof -
    have "map (\<lambda>i. map call_col (column_calls c (chain p) i)) [0..<length names]
        = map (\<lambda>i. replicate (length (chain p)) (Some (names ! i))) [0..<length names]"
      by (rule map_cong) (simp_all add: column_calls_cols [OF assms(1)])
    then show ?thesis unfolding map_concat map_map comp_def by (rule arg_cong)
  qed
  also have "\<dots> = concat (map (\<lambda>n. replicate (length (chain p)) (Some n)) (map ((!) names) [0..<length names]))"
    by (simp add: comp_def)
  also have "\<dots> = concat (map (\<lambda>n. replicate (length (chain p)) (Some n)) names)"
    by (simp only: map_nth)
  finally have m: "map call_col (concat (map (column_calls c (chain p)) [0..<length names]))
      = concat (map (\<lambda>n. replicate (length (chain p)) (Some n)) names)" .
  have f: "\<And>xs. length (filter (\<lambda>call. call_col call = Some nm) xs)
      = length (filter (\<lambda>x. x = Some nm) (map call_col xs))"
    by (simp add: filter_map comp_def)
  show ?thesis
    unfolding pages_written_def
    by (simp add: assms(2) f m count_replicate_cols)
qed

lemma distinct_count: "distinct names \<Longrightarrow> nm \<in> set names \<Longrightarrow> length (filter (\<lambda>n. n = nm) names) = 1"
  by (induction names) (auto simp: filter_empty_conv)

text \<open>
  Claim C6, as the code has it.  A writer is created with \<^verbatim>\<open>MaxPageSize(P)\<close>, \<open>P \<ge> 1\<close>,
  over columns with distinct names, and takes the records \<open>rs\<close>.  Every \<^verbatim>\<open>Add\<close> returns.
  The chain then has \<open>(N + P - 1) div P\<close> writers, the ceiling of \<open>N / P\<close>, when the
  number \<open>N\<close> of records is at least 1, and one writer (the empty root) when \<open>N = 0\<close>;
  and a \<^verbatim>\<open>Write\<close> that returns no error has made that many page-header calls for each
  column: \<^verbatim>\<open>Write\<close> writes the root's page of every column also when the root is empty.
\<close>

theorem page_count:
  assumes P: "1 \<le> P" and d: "distinct (map Field_Name Fs)"
    and new: "NewParquetWriter Fs s [MaxPageSize (int P)] = Inr (p0, w0, meta0)"
  shows "\<exists>pN. ParquetWriter_Adds Fs p0 rs = Some pN \<and>
           length (chain pN) = (if rs = [] then 1 else (length rs + P - 1) div P) \<and>
           (\<forall>w meta p' w' meta'.
              ParquetWriter_Write c Fs pN w meta = (p', w', meta', None) \<longrightarrow>
              (\<forall>f \<in> set Fs. pages_written (Field_Name f) (drop (length meta) meta')
                 = (if rs = [] then 1 else (length rs + P - 1) div P)))"
proof -
  let ?names = "map Field_Name Fs"
  from NewParquetWriter_MaxPageSize [OF new] have p0: "p0 = ParquetWriter Fs 0 None (int P)" .
  have ok0: "chain_ok ?names (int P) p0"
    by (simp add: p0 chain_ok_def chain_def)
  have l0: "map pw_len (chain p0) = lens_after P 0"
    by (simp add: p0 chain_def lens_after_def)
  from Adds_chain [OF P ok0 refl l0, of rs]
  obtain pN where pN: "ParquetWriter_Adds Fs p0 rs = Some pN" "chain_ok ?names (int P) pN"
    "map pw_len (chain pN) = lens_after P (length rs)"
    by auto
  from pN(3) have "length (chain pN) = length (lens_after P (length rs))"
    by (metis length_map)
  with P have len: "length (chain pN) = (if rs = [] then 1 else (length rs + P - 1) div P)"
    by (simp add: length_lens_after)
  have fl: "length (pw_fields pN) = length ?names"
    using pN(2) by (auto simp: chain_ok_def chain_def dest: arg_cong [where f = length])
  have cnt: "pages_written (Field_Name f) (drop (length meta) meta')
      = (if rs = [] then 1 else (length rs + P - 1) div P)"
    if w: "ParquetWriter_Write c Fs pN w meta = (p', w', meta', None)" and f: "f \<in> set Fs"
    for w meta p' w' meta' f
  proof -
    from ParquetWriter_Write_cases [OF w]
    have "drop (length meta) meta' = concat (map (column_calls c (chain pN)) [0..<length (pw_fields pN)])
        @ [Call_StartRowGroup (map Field_Schema Fs)]"
      by simp
    with pages_written_columns [OF pN(2) fl, of "Field_Name f" c]
    have "pages_written (Field_Name f) (drop (length meta) meta')
        = length (chain pN) * length (filter (\<lambda>n. n = Field_Name f) ?names)"
      by simp
    moreover from f d have "length (filter (\<lambda>n. n = Field_Name f) ?names) = 1"
      by (intro distinct_count) auto
    ultimately show ?thesis using len by simp
  qed
  from pN(1) len cnt show ?thesis by blast
qed

lemma new2: "NewParquetWriter (example_fields [] []) empty_sink [MaxPageSize (int 2)]
   = Inr (ParquetWriter (example_fields [] []) 0 None 2,
          \<lparr>wc_n = 4, wc_w = \<lparr>written = PAR1, room = None\<rparr>\<rparr>,
          [Call_New [parquet_Field ''a'' Int32Type RepetitionRequired,
                     parquet_Field ''b'' BoolType RepetitionRequired]])"
  by (simp add: NewParquetWriter_def newParquetWriter_def empty_sink_def WriteCounter_Write_def
        sink_Write_def example_fields_def PAR1_def)

lemma adds3: "ParquetWriter_Adds (example_fields [] []) (ParquetWriter (example_fields [] []) 0 None 2)
     [(1, True), (2, False), (3, True)]
   = Some (ParquetWriter (example_fields [1, 2] [True, False]) 2
            (Some (ParquetWriter (example_fields [3] [True]) 1 None 2)) 2)"
  by (simp add: ParquetWriter_Add.simps example_fields_def TField_Add_def)

lemma write3: "ParquetWriter_Write (sample_collab no_footer) (example_fields [] [])
     (ParquetWriter (example_fields [1, 2] [True, False]) 2
            (Some (ParquetWriter (example_fields [3] [True]) 1 None 2)) 2) empty_counter []
   = (ParquetWriter (example_fields [] []) 0 None 2,
      \<lparr>wc_n = 26, wc_w = \<lparr>written = [8, 8, 2, 1, 0, 0, 0, 2, 0, 0, 0,  4, 4, 1, 3, 0, 0, 0,
                                        1, 1, 2, 1,  1, 1, 1, 1], room = None\<rparr>\<rparr>,
      [Call_WritePageHeader ''a'' 8 8 2, Call_WritePageHeader ''a'' 4 4 1,
       Call_WritePageHeader ''b'' 1 1 2, Call_WritePageHeader ''b'' 1 1 1,
       Call_StartRowGroup [parquet_Field ''a'' Int32Type RepetitionRequired,
                     parquet_Field ''b'' BoolType RepetitionRequired]], None)"
  by (simp add: example_fields_def empty_counter_def ParquetWriter_Write_def
        sample_collab_def RequiredField_doWrite_def Metadata_WritePageHeader_def
        WriteCounter_Write_def sink_Write_def le32_def packBools_def packBools_step_def)

lemma write0: "ParquetWriter_Write (sample_collab no_footer) (example_fields [] [])
     (ParquetWriter (example_fields [] []) 0 None 2) empty_counter []
   = (ParquetWriter (example_fields [] []) 0 None 2,
      \<lparr>wc_n = 6, wc_w = \<lparr>written = [0, 0, 0, 0, 0, 0], room = None\<rparr>\<rparr>,
      [Call_WritePageHeader ''a'' 0 0 0, Call_WritePageHeader ''b'' 0 0 0,
       Call_StartRowGroup [parquet_Field ''a'' Int32Type RepetitionRequired,
                     parquet_Field ''b'' BoolType RepetitionRequired]], None)"
  by (simp add: example_fields_def empty_counter_def ParquetWriter_Write_def
        sample_collab_def RequiredField_doWrite_def Metadata_WritePageHeader_def
        WriteCounter_Write_def sink_Write_def le32_def packBools_def packBools_step_def)

theorem page_count_witness:
  "pages_written ''a''
     [Call_WritePageHeader ''a'' 8 8 2, Call_WritePageHeader ''a'' 4 4 1,
      Call_WritePageHeader ''b'' 1 1 2, Call_WritePageHeader ''b'' 1 1 1,
      Call_StartRowGroup [parquet_Field ''a'' Int32Type RepetitionRequired,
                          parquet_Field ''b'' BoolType RepetitionRequired]]
   = (3 + 2 - 1) div 2"
proof -
  have d: "distinct (map Field_Name (example_fields [] []))"
    by (simp add: example_fields_def)
  have P: "1 \<le> (2 :: nat)" by simp
  from page_count [OF P d new2, of "[(1, True), (2, False), (3, True)]"
         "sample_collab no_footer"]
  obtain pN where a: "ParquetWriter_Adds (example_fields [] [])
         (ParquetWriter (example_fields [] []) 0 None 2) [(1, True), (2, False), (3, True)]
         = Some pN"
    and b: "\<And>w meta p' w' meta' f.
          ParquetWriter_Write (sample_collab no_footer) (example_fields [] []) pN w meta
            = (p', w', meta', None) \<Longrightarrow> f \<in> set (example_fields [] []) \<Longrightarrow>
          pages_written (Field_Name f) (drop (length meta) meta')
             = (if [(1, True), (2, False), (3, True)] = ([] :: (32 word \<times> bool) list) then 1
                else (length [(1 :: 32 word, True), (2, False), (3, True)] + 2 - 1) div 2)"
    by blast
  from a [unfolded adds3] have pN: "pN = ParquetWriter (example_fields [1, 2] [True, False]) 2
            (Some (ParquetWriter (example_fields [3] [True]) 1 None 2)) 2"
    by simp
  have f: "example_fields [] [] ! 0 \<in> set (example_fields [] [])"
    by (simp add: example_fields_def)
  from b [OF write3 [folded pN] f]
  show ?thesis by (simp add: example_fields_def)
qed

text \<open>
  Claim C6 as stated fails for \<open>N = 0\<close>: after no \<^verbatim>\<open>Add\<close>, \<^verbatim>\<open>Write\<close> makes one
  page-header call for column \<open>a\<close> (a page of no values), and the ceiling of \<open>0 / 2\<close>
  is 0.
\<close>

theorem page_count_counterexample:
  "NewParquetWriter (example_fields [] []) empty_sink [MaxPageSize 2]
     = Inr (ParquetWriter (example_fields [] []) 0 None 2,
            \<lparr>wc_n = 4, wc_w = \<lparr>written = PAR1, room = None\<rparr>\<rparr>,
            [Call_New [parquet_Field ''a'' Int32Type RepetitionRequired,
                       parquet_Field ''b'' BoolType RepetitionRequired]]) \<and>
   ParquetWriter_Adds (example_fields [] []) (ParquetWriter (example_fields [] []) 0 None 2) []
     = Some (ParquetWriter (example_fields [] []) 0 None 2) \<and>
   pages_written ''a''
     (fst (snd (snd (ParquetWriter_Write (sample_collab no_footer) (example_fields [] [])
        (ParquetWriter (example_fields [] []) 0 None 2) empty_counter [])))) = 1 \<and>
   (1 :: nat) \<noteq> (0 + 2 - 1) div 2"
  using new2 by (simp add: write0 pages_written_def)

section \<open>The file envelope\<close>

lemma apply_opt_written:
  "apply_opt opt (p, w, m) = ((p', w', m'), None) \<Longrightarrow>
     written (wc_w w') = written (wc_w w) @ (if opt = Begin then PAR1 else [])"
  by (cases opt) (auto split: prod.splits dest: WriteCounter_Write_ok)

lemma apply_opts_written:
  "apply_opts opts (p, w, m) = ((p', w', m'), None) \<Longrightarrow>
     written (wc_w w') = written (wc_w w) @ concat (map (\<lambda>opt. if opt = Begin then PAR1 else []) opts)"
proof (induction opts arbitrary: p w m)
  case Nil
  then show ?case by simp
next
  case (Cons opt opts)
  obtain p1 w1 m1 e1 where a: "apply_opt opt (p, w, m) = ((p1, w1, m1), e1)"
    by (cases "apply_opt opt (p, w, m)") auto
  with Cons.prems have e1: "e1 = None" and r: "apply_opts opts (p1, w1, m1) = ((p', w', m'), None)"
    by (auto split: option.splits)
  from apply_opt_written [OF a [unfolded e1]] Cons.IH [OF r] show ?case by simp
qed

lemma begins_with_PAR1:
  "\<exists>rest. concat (map (\<lambda>opt. if opt = Begin then PAR1 else []) (opts @ [Begin])) = PAR1 @ rest"
  by (induction opts) auto

lemma NewParquetWriter_written:
  assumes "NewParquetWriter Fs s opts = Inr (p0, w0, meta0)" and "written s = []"
  shows "\<exists>rest. written (wc_w w0) = PAR1 @ rest"
proof -
  from assms(1) obtain m where
    "apply_opts (opts @ [Begin]) (ParquetWriter Fs 0 None 1000, \<lparr>wc_n = 0, wc_w = s\<rparr>, None)
       = ((p0, w0, m), None)"
    by (auto simp: NewParquetWriter_def newParquetWriter_def split: prod.splits option.splits)
  from apply_opts_written [OF this] assms(2) begins_with_PAR1 [of opts]
  show ?thesis by auto
qed

lemma run_cmds_written:
  "run_cmds c Fs cmds (p, w, meta) = Some ((p', w', meta'), None) \<Longrightarrow>
     \<exists>ext. written (wc_w w') = written (wc_w w) @ ext"
proof (induction cmds arbitrary: p w meta)
  case Nil
  then show ?case by simp
next
  case (Cons cmd cmds)
  show ?case
  proof (cases cmd)
    case (Cmd_Add rec)
    with Cons.prems obtain p1 where "run_cmds c Fs cmds (p1, w, meta) = Some ((p', w', meta'), None)"
      by (auto split: option.splits)
    from Cons.IH [OF this] show ?thesis .
  next
    case Cmd_Write
    obtain p1 w1 meta1 e1 where wr: "ParquetWriter_Write c Fs p w meta = (p1, w1, meta1, e1)"
      by (cases "ParquetWriter_Write c Fs p w meta") auto
    with Cons.prems Cmd_Write have e1: "e1 = None"
      and r: "run_cmds c Fs cmds (p1, w1, meta1) = Some ((p', w', meta'), None)"
      by (auto split: option.splits)
    from ParquetWriter_Write_cases [OF wr] e1
    have "\<exists>ext. written (wc_w w1) = written (wc_w w) @ ext" by auto
    with Cons.IH [OF r] show ?thesis by auto
  qed
qed

lemma Close_written:
  assumes "ParquetWriter_Close c w meta = (w', meta', None)"
  shows "\<exists>ft. written (wc_w w') = written (wc_w w) @ ft @ PAR1"
  using assms
  by (auto simp: ParquetWriter_Close_def Metadata_Footer_def
      split: prod.splits option.splits sum.splits dest!: WriteCounter_Write_ok)

lemma length_PAR1 [simp]: "length PAR1 = 4" by (simp add: PAR1_def)

text \<open>
  When nothing fails: on an output that takes every byte the constructor returns a
  writer, and with a page size other than 0 and collaborators that do not fail every
  \<^verbatim>\<open>Add\<close> returns and every \<^verbatim>\<open>Write\<close> and \<^verbatim>\<open>Close\<close> returns no error.
\<close>

lemma apply_opts_unbounded:
  "room (wc_w w) = None \<Longrightarrow>
     \<exists>w' m'. apply_opts opts (p, w, m)
         = ((ParquetWriter (pw_fields p) (pw_len p) (pw_child p)
               (foldl (\<lambda>m opt. case opt of MaxPageSize k \<Rightarrow> k | _ \<Rightarrow> m) (pw_max p) opts),
             w', m'), None) \<and>
       room (wc_w w') = None"
proof (induction opts arbitrary: p w m)
  case Nil
  then show ?case by simp
next
  case (Cons opt opts)
  show ?case
  proof (cases opt)
    case (MaxPageSize k)
    from Cons.IH [OF Cons.prems, of "ParquetWriter (pw_fields p) (pw_len p) (pw_child p) k" m]
    show ?thesis using MaxPageSize by simp
  next
    case Begin
    have r: "room (wc_w (wc_add w PAR1)) = None" using Cons.prems by simp
    from Cons.IH [OF r, of p m]
    show ?thesis using Begin Cons.prems by (simp add: WriteCounter_Write_add)
  next
    case (WithMeta x)
    from Cons.IH [OF Cons.prems, of p "Some x"]
    show ?thesis using WithMeta by simp
  qed
qed

lemma NewParquetWriter_unbounded:
  assumes "room s = None"
  shows "\<exists>w0 meta0. NewParquetWriter Fs s opts
           = Inr (ParquetWriter Fs 0 None (opts_max opts), w0, meta0) \<and>
         room (wc_w w0) = None"
proof -
  have "room (wc_w \<lparr>wc_n = 0, wc_w = s\<rparr>) = None" using assms by simp
  from apply_opts_unbounded [OF this, of "opts @ [Begin]" "ParquetWriter Fs 0 None 1000" None]
  have "\<exists>w' m'.
      apply_opts (opts @ [Begin]) (ParquetWriter Fs 0 None 1000, \<lparr>wc_n = 0, wc_w = s\<rparr>, None)
        = ((ParquetWriter Fs 0 None (opts_max opts), w', m'), None) \<and>
      room (wc_w w') = None"
    by (simp add: opts_max_def)
  then obtain w' m' where
    a: "apply_opts (opts @ [Begin]) (ParquetWriter Fs 0 None 1000, \<lparr>wc_n = 0, wc_w = s\<rparr>, None)
       = ((ParquetWriter Fs 0 None (opts_max opts), w', m'), None)"
    and r: "room (wc_w w') = None"
    by blast
  from a r show ?thesis
    by (simp add: NewParquetWriter_def newParquetWriter_def)
qed

lemma collab_writes_page_ok: "collab_writes c \<Longrightarrow> page_ok c f"
  unfolding collab_writes_def page_ok_def
  by (auto split: option.splits sum.splits) (metis Inl_Inr_False)+

lemma chain_ok_pages_ok:
  assumes "collab_writes c" and "chain_ok names P p"
  shows "\<forall>j < length (pw_fields p). pages_ok c (chain p) j"
proof -
  have "p \<in> set (chain p)" by (simp add: chain_def)
  with assms(2) have "length (pw_fields p) = length names"
    unfolding chain_ok_def by (metis length_map)
  moreover have "\<forall>node \<in> set (chain p). length (pw_fields node) = length names"
    using assms(2) unfolding chain_ok_def by (metis length_map)
  ultimately show ?thesis
    by (simp add: pages_ok_def collab_writes_page_ok [OF assms(1)])
qed

lemma run_cmds_unbounded:
  "P \<noteq> 0 \<Longrightarrow> collab_writes c \<Longrightarrow> chain_ok (map Field_Name Fs) P p \<Longrightarrow>
   room (wc_w w) = None \<Longrightarrow>
     \<exists>p' w' meta'. run_cmds c Fs cmds (p, w, meta) = Some ((p', w', meta'), None) \<and>
       room (wc_w w') = None"
proof (induction cmds arbitrary: p w meta)
  case Nil
  then show ?case by simp
next
  case (Cons cmd cmds)
  show ?case
  proof (cases cmd)
    case (Cmd_Add rec)
    from Add_chain [OF Cons.prems(1) Cons.prems(3) refl, of rec]
    obtain p1 where a: "ParquetWriter_Add Fs p rec = Some p1"
      and ok: "chain_ok (map Field_Name Fs) P p1" by auto
    from Cons.IH [OF Cons.prems(1) Cons.prems(2) ok Cons.prems(4), of meta]
    show ?thesis using Cmd_Add a by simp
  next
    case Cmd_Write
    note wr = ParquetWriter_Write_add [OF Cons.prems(4)
        chain_ok_pages_ok [OF Cons.prems(2) Cons.prems(3)], of Fs meta]
    have "p \<in> set (chain p)" by (simp add: chain_def)
    with Cons.prems(3) have m: "pw_max p = P" by (simp add: chain_ok_def)
    have ok: "chain_ok (map Field_Name Fs) P (ParquetWriter Fs 0 None (pw_max p))"
      using m by (simp add: chain_ok_def chain_def)
    have r: "room (wc_w (wc_add w
        (concat (map (column_bytes c (chain p)) [0..<length (pw_fields p)])))) = None"
      using Cons.prems(4) by simp
    from Cons.IH [OF Cons.prems(1) Cons.prems(2) ok r]
    show ?thesis using Cmd_Write wr by simp
  qed
qed

lemma Close_unbounded:
  assumes "collab_writes c" and "room (wc_w w) = None"
  shows "\<exists>w' meta'. ParquetWriter_Close c w meta = (w', meta', None)"
proof -
  from assms(1) obtain bs where f: "c_Footer c meta = Inr bs"
    unfolding collab_writes_def by blast
  have r: "room (wc_w (wc_add w bs)) = None" using assms(2) by simp
  show ?thesis
    by (simp add: ParquetWriter_Close_def Metadata_Footer_def f
          WriteCounter_Write_add [OF assms(2)] WriteCounter_Write_add [OF r])
qed

text \<open>
  With page size 0 every writer is full when it is created, so \<^verbatim>\<open>Add\<close> goes from child
  to new child and does not return; no run with an \<^verbatim>\<open>Add\<close> comes to its end.
\<close>

lemma Add_max0: "chain_max0 p \<Longrightarrow> ParquetWriter_Add Fs p rec = None"
proof (rule ccontr)
  assume q: "chain_max0 p" and "ParquetWriter_Add Fs p rec \<noteq> None"
  then obtain y where y: "ParquetWriter_Add Fs p rec = Some y" by auto
  have "\<not> chain_max0 p"
    using y
  proof (induction rule: ParquetWriter_Add.raw_induct [rotated 1, consumes 1])
    case (1 add Fs p rec y)
    show ?case
    proof
      assume full: "chain_max0 p"
      have "p \<in> set (chain p)" by (simp add: chain_def)
      with full have l: "pw_len p = pw_max p" and m: "pw_max p = 0"
        by (auto simp: chain_max0_def)
      obtain fs l' ch m' where p: "p = ParquetWriter fs l' ch m'" by (cases p)
      show False
      proof (cases ch)
        case None
        with 1(2) l obtain c' where "add Fs (ParquetWriter Fs 0 None (pw_max p)) rec = Some c'"
          using p by (auto split: if_splits bind_splits)
        from 1(1) [OF this] m show False by (simp add: chain_max0_def chain_def)
      next
        case (Some ch0)
        with 1(2) l obtain c' where "add Fs ch0 rec = Some c'"
          using p by (auto split: if_splits bind_splits)
        from 1(1) [OF this] full p Some show False
          by (cases ch0) (auto simp: chain_max0_def chain_def)
      qed
    qed
  qed
  with q show False by simp
qed

lemma run_cmds_max0:
  "chain_max0 p \<Longrightarrow> Cmd_Add rec \<in> set cmds \<Longrightarrow> run_cmds c Fs cmds (p, w, meta) \<noteq> Some (st, None)"
proof (induction cmds arbitrary: p w meta)
  case Nil
  then show ?case by simp
next
  case (Cons cmd cmds)
  show ?case
  proof (cases cmd)
    case (Cmd_Add r)
    then show ?thesis using Add_max0 [OF Cons.prems(1)] by simp
  next
    case Cmd_Write
    obtain p1 w1 meta1 e1 where wr: "ParquetWriter_Write c Fs p w meta = (p1, w1, meta1, e1)"
      by (cases "ParquetWriter_Write c Fs p w meta") auto
    show ?thesis
    proof (cases e1)
      case (Some e)
      with wr Cmd_Write show ?thesis by simp
    next
      case None
      have "p \<in> set (chain p)" by (simp add: chain_def)
      with Cons.prems(1) have m: "pw_max p = 0" by (simp add: chain_max0_def)
      from ParquetWriter_Write_cases [OF wr] None m have "p1 = ParquetWriter Fs 0 None 0"
        by auto
      then have f: "chain_max0 p1" by (simp add: chain_max0_def chain_def)
      from Cons.prems(2) Cmd_Write have "Cmd_Add rec \<in> set cmds" by auto
      from Cons.IH [OF f this] wr None Cmd_Write show ?thesis by simp
    qed
  qed
qed


text \<open>
  Claim C9.  A writer is created by \<^verbatim>\<open>NewParquetWriter\<close> (with any options of the
  template) on an output that holds nothing yet, used for any sequence of \<^verbatim>\<open>Add\<close> and
  \<^verbatim>\<open>Write\<close> calls, and closed.  When all of this returns without an error, the bytes
  written are \<open>PAR1\<close>, some bytes, \<open>PAR1\<close>: the first four and the last four bytes are
  the magic.  And all of this does return without an error, for every sequence of
  calls, when the page size is not 0, the output takes every byte and the
  collaborators of the writer do not fail.  (With page size 0 no \<^verbatim>\<open>Add\<close> returns:
  lemma \<open>run_cmds_max0\<close>.)
\<close>

theorem file_envelope:
  "(NewParquetWriter Fs \<lparr>written = [], room = rm\<rparr> opts = Inr (p0, w0, meta0) \<and>
    run_cmds c Fs cmds (p0, w0, meta0) = Some ((p1, w1, meta1), None) \<and>
    ParquetWriter_Close c w1 meta1 = (w2, meta2, None) \<longrightarrow>
      (\<exists>mid. written (wc_w w2) = PAR1 @ mid @ PAR1) \<and>
      take 4 (written (wc_w w2)) = PAR1 \<and>
      drop (length (written (wc_w w2)) - 4) (written (wc_w w2)) = PAR1) \<and>
   (collab_writes c \<and> opts_max opts \<noteq> 0 \<longrightarrow>
      (\<exists>q0 v0 m0 q1 v1 m1 v2 m2.
         NewParquetWriter Fs \<lparr>written = [], room = None\<rparr> opts = Inr (q0, v0, m0) \<and>
         run_cmds c Fs cmds (q0, v0, m0) = Some ((q1, v1, m1), None) \<and>
         ParquetWriter_Close c v1 m1 = (v2, m2, None) \<and>
         (\<exists>mid. written (wc_w v2) = PAR1 @ mid @ PAR1) \<and>
         take 4 (written (wc_w v2)) = PAR1 \<and>
         drop (length (written (wc_w v2)) - 4) (written (wc_w v2)) = PAR1))"
proof -
  have env: "(\<exists>mid. written (wc_w x2) = PAR1 @ mid @ PAR1) \<and>
      take 4 (written (wc_w x2)) = PAR1 \<and>
      drop (length (written (wc_w x2)) - 4) (written (wc_w x2)) = PAR1"
    if "NewParquetWriter Fs \<lparr>written = [], room = r\<rparr> opts = Inr (x0, y0, z0)"
      and "run_cmds c Fs cmds (x0, y0, z0) = Some ((x1, y1, z1), None)"
      and "ParquetWriter_Close c y1 z1 = (x2, z2, None)"
    for r x0 y0 z0 x1 y1 z1 x2 z2
  proof -
    from NewParquetWriter_written [OF that(1)] obtain rest where
      a: "written (wc_w y0) = PAR1 @ rest" by auto
    from run_cmds_written [OF that(2)] obtain ext where
      b: "written (wc_w y1) = written (wc_w y0) @ ext" by auto
    from Close_written [OF that(3)] obtain ft where
      c: "written (wc_w x2) = written (wc_w y1) @ ft @ PAR1" by auto
    from a b c have d: "written (wc_w x2) = PAR1 @ (rest @ ext @ ft) @ PAR1" by simp
    then show ?thesis by auto
  qed
  have total: "\<exists>q0 v0 m0 q1 v1 m1 v2 m2.
         NewParquetWriter Fs \<lparr>written = [], room = None\<rparr> opts = Inr (q0, v0, m0) \<and>
         run_cmds c Fs cmds (q0, v0, m0) = Some ((q1, v1, m1), None) \<and>
         ParquetWriter_Close c v1 m1 = (v2, m2, None) \<and>
         (\<exists>mid. written (wc_w v2) = PAR1 @ mid @ PAR1) \<and>
         take 4 (written (wc_w v2)) = PAR1 \<and>
         drop (length (written (wc_w v2)) - 4) (written (wc_w v2)) = PAR1"
    if cw: "collab_writes c" and mx: "opts_max opts \<noteq> 0"
  proof -
    from NewParquetWriter_unbounded [of "\<lparr>written = [], room = None\<rparr>" Fs opts]
    obtain v0 m0 where
      n: "NewParquetWriter Fs \<lparr>written = [], room = None\<rparr> opts
            = Inr (ParquetWriter Fs 0 None (opts_max opts), v0, m0)"
      and r0: "room (wc_w v0) = None"
      by auto
    have ok: "chain_ok (map Field_Name Fs) (opts_max opts) (ParquetWriter Fs 0 None (opts_max opts))"
      by (simp add: chain_ok_def chain_def)
    from run_cmds_unbounded [OF mx cw ok r0, of cmds m0]
    obtain q1 v1 m1 where
      run: "run_cmds c Fs cmds (ParquetWriter Fs 0 None (opts_max opts), v0, m0)
              = Some ((q1, v1, m1), None)"
      and r1: "room (wc_w v1) = None"
      by auto
    from Close_unbounded [OF cw r1, of m1]
    obtain v2 m2 where cl: "ParquetWriter_Close c v1 m1 = (v2, m2, None)" by auto
    from env [OF n run cl] n run cl show ?thesis by blast
  qed
  from env total show ?thesis by blast
qed

lemma example_run:
  "run_cmds (sample_collab no_footer) (example_fields [] []) [Cmd_Add (1, True), Cmd_Write]
     (ParquetWriter (example_fields [] []) 0 None 2,
      \<lparr>wc_n = 4, wc_w = \<lparr>written = PAR1, room = None\<rparr>\<rparr>,
      [Call_New [parquet_Field ''a'' Int32Type RepetitionRequired,
                 parquet_Field ''b'' BoolType RepetitionRequired]])
   = Some ((ParquetWriter (example_fields [] []) 0 None 2,
            \<lparr>wc_n = 15,
             wc_w = \<lparr>written = PAR1 @ [4, 4, 1, 1, 0, 0, 0, 1, 1, 1, 1], room = None\<rparr>\<rparr>,
            [Call_New [parquet_Field ''a'' Int32Type RepetitionRequired,
                       parquet_Field ''b'' BoolType RepetitionRequired],
             Call_WritePageHeader ''a'' 4 4 1, Call_WritePageHeader ''b'' 1 1 1,
             Call_StartRowGroup [parquet_Field ''a'' Int32Type RepetitionRequired,
                                 parquet_Field ''b'' BoolType RepetitionRequired]]), None)"
  by (simp add: ParquetWriter_Add.simps example_fields_def TField_Add_def
        ParquetWriter_Write_def sample_collab_def RequiredField_doWrite_def
        Metadata_WritePageHeader_def WriteCounter_Write_def sink_Write_def le32_def
        packBools_def packBools_step_def PAR1_def)

lemma example_close:
  "ParquetWriter_Close (sample_collab no_footer)
     \<lparr>wc_n = 15, wc_w = \<lparr>written = PAR1 @ [4, 4, 1, 1, 0, 0, 0, 1, 1, 1, 1], room = None\<rparr>\<rparr>
     [Call_New [parquet_Field ''a'' Int32Type RepetitionRequired,
                parquet_Field ''b'' BoolType RepetitionRequired],
      Call_WritePageHeader ''a'' 4 4 1, Call_WritePageHeader ''b'' 1 1 1,
      Call_StartRowGroup [parquet_Field ''a'' Int32Type RepetitionRequired,
                          parquet_Field ''b'' BoolType RepetitionRequired]]
   = (\<lparr>wc_n = 19,
       wc_w = \<lparr>written = PAR1 @ [4, 4, 1, 1, 0, 0, 0, 1, 1, 1, 1] @ PAR1, room = None\<rparr>\<rparr>,
      [Call_New [parquet_Field ''a'' Int32Type RepetitionRequired,
                 parquet_Field ''b'' BoolType RepetitionRequired],
       Call_WritePageHeader ''a'' 4 4 1, Call_WritePageHeader ''b'' 1 1 1,
       Call_StartRowGroup [parquet_Field ''a'' Int32Type RepetitionRequired,
                           parquet_Field ''b'' BoolType RepetitionRequired],
       Call_Footer], None)"
  by (simp add: ParquetWriter_Close_def Metadata_Footer_def sample_collab_def
        WriteCounter_Write_def sink_Write_def PAR1_def)

lemma sample_collab_writes: "collab_writes (sample_collab ft)"
  by (simp add: collab_writes_def sample_collab_def)

theorem file_envelope_witness:
  "(\<exists>q0 v0 m0 q1 v1 m1 v2 m2.
      NewParquetWriter (example_fields [] []) \<lparr>written = [], room = None\<rparr> [MaxPageSize 2]
        = Inr (q0, v0, m0) \<and>
      run_cmds (sample_collab no_footer) (example_fields [] [])
        [Cmd_Add (1, True), Cmd_Write] (q0, v0, m0) = Some ((q1, v1, m1), None) \<and>
      ParquetWriter_Close (sample_collab no_footer) v1 m1 = (v2, m2, None) \<and>
      written (wc_w v2) = PAR1 @ [4, 4, 1, 1, 0, 0, 0, 1, 1, 1, 1] @ PAR1 \<and>
      take 4 (written (wc_w v2)) = PAR1 \<and>
      drop (length (written (wc_w v2)) - 4) (written (wc_w v2)) = PAR1)"
proof -
  let ?c = "sample_collab no_footer"
  let ?Fs = "example_fields [] []"
  let ?cmds = "[Cmd_Add (1, True), Cmd_Write]"
  have mx: "opts_max [MaxPageSize 2] \<noteq> 0" by (simp add: opts_max_def)
  note n = new2 [unfolded empty_sink_def, simplified]
  from file_envelope [where Fs = ?Fs and opts = "[MaxPageSize 2]" and c = ?c and cmds = ?cmds,
      THEN conjunct2, THEN mp, OF conjI [OF sample_collab_writes mx]]
  obtain q0 v0 m0 q1 v1 m1 v2 m2 where
    a: "NewParquetWriter ?Fs \<lparr>written = [], room = None\<rparr> [MaxPageSize 2] = Inr (q0, v0, m0)"
    and b: "run_cmds ?c ?Fs ?cmds (q0, v0, m0) = Some ((q1, v1, m1), None)"
    and cl: "ParquetWriter_Close ?c v1 m1 = (v2, m2, None)"
    by blast
  from file_envelope [where Fs = ?Fs and opts = "[MaxPageSize 2]" and c = ?c and cmds = ?cmds
      and rm = None and ?p0.0 = q0 and ?w0.0 = v0 and ?meta0.0 = m0 and ?p1.0 = q1
      and ?w1.0 = v1 and ?meta1.0 = m1 and ?w2.0 = v2 and ?meta2.0 = m2,
      THEN conjunct1, THEN mp, OF conjI [OF a conjI [OF b cl]]]
  have t: "take 4 (written (wc_w v2)) = PAR1"
    and d: "drop (length (written (wc_w v2)) - 4) (written (wc_w v2)) = PAR1"
    by simp_all
  from a n have q: "q0 = ParquetWriter ?Fs 0 None 2"
    "v0 = \<lparr>wc_n = 4, wc_w = \<lparr>written = PAR1, room = None\<rparr>\<rparr>"
    "m0 = [Call_New [parquet_Field ''a'' Int32Type RepetitionRequired,
                     parquet_Field ''b'' BoolType RepetitionRequired]]"
    by simp_all
  from b [unfolded q example_run] have v1: "v1 = \<lparr>wc_n = 15,
       wc_w = \<lparr>written = PAR1 @ [4, 4, 1, 1, 0, 0, 0, 1, 1, 1, 1], room = None\<rparr>\<rparr>"
    and m1: "m1 = [Call_New [parquet_Field ''a'' Int32Type RepetitionRequired,
                       parquet_Field ''b'' BoolType RepetitionRequired],
             Call_WritePageHeader ''a'' 4 4 1, Call_WritePageHeader ''b'' 1 1 1,
             Call_StartRowGroup [parquet_Field ''a'' Int32Type RepetitionRequired,
                                 parquet_Field ''b'' BoolType RepetitionRequired]]"
    by simp_all
  from cl [unfolded v1 m1 example_close]
  have w: "written (wc_w v2) = PAR1 @ [4, 4, 1, 1, 0, 0, 0, 1, 1, 1, 1] @ PAR1" by auto
  from a b cl w t d show ?thesis by blast
qed

section \<open>The number of values an optional column decodes\<close>

lemma OptionalField_doRead_loop_defs:
  "OptionalField_doRead_loop c r N nRead out ds = (r', Inr (out', ds')) \<Longrightarrow>
     \<exists>new. ds' = ds @ new"
proof (induction c r N nRead out ds rule: OptionalField_doRead_loop.induct)
  case (1 c r N nRead out ds)
  show ?case
  proof (cases "nRead < N")
    case False
    with "1.prems" show ?thesis
      by (simp add: OptionalField_doRead_loop.simps [of c r N nRead out ds])
  next
    case True
    from "1.prems" True obtain r1 uncompressed ph lv l nv where
      a: "read_page c r = (r1, Inr (uncompressed, ph))"
      and b: "c_ReadLevels c uncompressed = Inr (lv, l)"
      and c: "\<not> (l < 0 \<or> int (length uncompressed) < l)"
      and d: "ph_NumValues ph = Some nv"
      and e: "OptionalField_doRead_loop c r1 N (nRead + nv)
                (out @ drop (nat l) uncompressed) (ds @ lv) = (r', Inr (out', ds'))"
      by (subst (asm) OptionalField_doRead_loop.simps)
         (auto split: prod.splits sum.splits if_splits option.splits)
    from "1.IH" [OF True a [symmetric] refl refl b refl c d e]
    show ?thesis by auto
  qed
qed

lemma OptionalField_doRead_defs:
  "OptionalField_doRead c ds r pos = (r', Inr (out, ds')) \<Longrightarrow> \<exists>new. ds' = ds @ new"
  unfolding OptionalField_doRead_def by (rule OptionalField_doRead_loop_defs)

lemma binary_Read_length:
  "binary_Read sz bs n = Inr v \<Longrightarrow> length v = n"
  by (auto simp: binary_Read_def split: if_splits)

lemma TOptionalField_Read_count:
  assumes "TOptionalField_Read sz c f r pos = (r', Inr f')"
  shows "\<exists>new. defs f' = defs f @ new \<and>
           int (length (vals_o f')) - int (length (vals_o f))
             = int (nVals (defs f')) - int (length (vals_o f))"
proof -
  from assms obtain out ds v where
    a: "OptionalField_doRead c (defs f) r pos = (r', Inr (out, ds))"
    and b: "\<not> int (nVals ds) - int (length (vals_o f)) < 0"
    and c: "binary_Read sz out (nat (int (nVals ds) - int (length (vals_o f)))) = Inr v"
    and d: "f' = f\<lparr>defs := ds, vals_o := vals_o f @ v\<rparr>"
    by (auto simp: TOptionalField_Read_def split: prod.splits sum.splits if_splits)
  from OptionalField_doRead_defs [OF a] obtain new where "ds = defs f @ new" ..
  with binary_Read_length [OF c] b d show ?thesis by auto
qed

lemma BoolOptionalField_Read_count:
  assumes "BoolOptionalField_Read c f r pos = (r', Inr f')"
    and "\<forall>bs n v. c_GetBools c bs n = (v, None) \<longrightarrow> int (length v) = n"
  shows "\<exists>new. defs f' = defs f @ new \<and>
           int (length (vals_o f')) - int (length (vals_o f))
             = int (nVals (defs f')) - int (length (vals_o f))"
proof -
  from assms(1) obtain out ds v where
    a: "OptionalField_doRead c (defs f) r pos = (r', Inr (out, ds))"
    and c: "c_GetBools c out (int (nVals ds) - int (length (vals_o f))) = (v, None)"
    and d: "f' = f\<lparr>defs := ds, vals_o := vals_o f @ v\<rparr>"
    by (auto simp: BoolOptionalField_Read_def split: prod.splits sum.splits option.splits)
  from OptionalField_doRead_defs [OF a] obtain new where "ds = defs f @ new" ..
  with assms(2) c d show ?thesis by auto
qed

lemma StringOptionalField_Read_loop_count:
  "StringOptionalField_Read_loop ds start js rr vs = Inr vs' \<Longrightarrow>
     length vs' = length vs + length (filter (\<lambda>j. ds ! (start + j) \<noteq> 0) js) \<and>
     (\<forall>j \<in> set js. start + j < length ds)"
proof (induction ds start js rr vs rule: StringOptionalField_Read_loop.induct)
  case (1 ds start rr vs)
  then show ?case by simp
next
  case (2 ds start j js rr vs)
  from "2.prems" have inr: "start + j < length ds"
    by (auto split: if_splits)
  show ?case
  proof (cases "ds ! (start + j) = 0")
    case True
    with "2.prems" inr have "StringOptionalField_Read_loop ds start js rr vs = Inr vs'" by simp
    from "2.IH"(1) [OF _ True this] inr True show ?thesis by simp
  next
    case False
    with "2.prems" inr obtain s rr' where rs: "read_string rr = Inr (s, rr')"
      and rec: "StringOptionalField_Read_loop ds start js rr' (vs @ [s]) = Inr vs'"
      by (auto split: sum.splits)
    from "2.IH"(2) [OF _ False rs refl rec] inr False show ?thesis by simp
  qed
qed

lemma filter_index_window:
  "start + n \<le> length ds \<Longrightarrow>
     length (filter (\<lambda>j. P (ds ! (start + j))) [0..<n])
       = length (filter P (take n (drop start ds)))"
proof -
  assume a: "start + n \<le> length ds"
  have "take n (drop start ds) = map (\<lambda>j. ds ! (start + j)) [0..<n]"
    using a by (auto intro!: nth_equalityI)
  then show ?thesis by (simp add: filter_map comp_def)
qed

lemma StringOptionalField_Read_count:
  assumes "StringOptionalField_Read c f r pos = (r', Inr f')"
  shows "\<exists>new. defs f' = defs f @ new \<and> nat (pos_N pos) \<le> length new \<and>
           int (length (vals_o f')) - int (length (vals_o f))
             = int (length (filter (\<lambda>d. d \<noteq> 0) (take (nat (pos_N pos)) new)))"
proof -
  from assms obtain out ds vs where
    a: "OptionalField_doRead c (defs f) r pos = (r', Inr (out, ds))"
    and c: "StringOptionalField_Read_loop ds (length (defs f)) [0..<nat (pos_N pos)] out (vals_o f) = Inr vs"
    and d: "f' = f\<lparr>defs := ds, vals_o := vs\<rparr>"
    by (auto simp: StringOptionalField_Read_def Let_def split: prod.splits sum.splits)
  from OptionalField_doRead_defs [OF a] obtain new where new: "ds = defs f @ new" ..
  note lc = StringOptionalField_Read_loop_count [OF c]
  have le: "nat (pos_N pos) \<le> length new"
  proof (cases "nat (pos_N pos)")
    case 0
    then show ?thesis by simp
  next
    case (Suc m)
    then have "m \<in> set [0..<nat (pos_N pos)]" by simp
    with lc have "length (defs f) + m < length ds" by blast
    with new Suc show ?thesis by simp
  qed
  then have "length (defs f) + nat (pos_N pos) \<le> length ds" using new by simp
  from filter_index_window [OF this, of "\<lambda>d. d \<noteq> 0"] new
  have "length (filter (\<lambda>j. ds ! (length (defs f) + j) \<noteq> 0) [0..<nat (pos_N pos)])
      = length (filter (\<lambda>d. d \<noteq> 0) (take (nat (pos_N pos)) new))"
    by simp
  with lc d new le show ?thesis by auto
qed

text \<open>
  The number of values a \<^verbatim>\<open>Read\<close> of an optional column that returns no error decodes
  and appends.  Let \<open>ds\<close> be the levels held before the call and \<open>new\<close> the levels
  \<^verbatim>\<open>doRead\<close> appended.  For a fixed-width or bool column it is the number of levels equal
  to 1 among all the levels now held, minus the number of values held before (for a
  bool column \<^verbatim>\<open>GetBools\<close> is asked for that many, and is taken to return as many as
  asked).  For a string column the loop runs over the first \<^verbatim>\<open>pos.N\<close> new levels and
  decodes one string for each that is not 0.
\<close>

lemma Field_Read_optional_count:
  assumes "Field_Read c f r pos = (r', Inr f')" and "Field_defs f = Some ds"
    and "\<forall>bs n v. c_GetBools c bs n = (v, None) \<longrightarrow> int (length v) = n"
  shows "\<exists>new. Field_defs f' = Some (ds @ new) \<and>
           int (Field_nvals f') - int (Field_nvals f) =
             (case f of
                StringOptionalField g \<Rightarrow>
                  int (length (filter (\<lambda>d. d \<noteq> 0) (take (nat (pos_N pos)) new)))
              | _ \<Rightarrow> int (nVals (ds @ new)) - int (Field_nvals f))"
proof (cases f)
  case (Uint32OptionalField g)
  with assms(1) obtain g' where "TOptionalField_Read 4 c g r pos = (r', Inr g')"
    "f' = Uint32OptionalField g'"
    by (auto simp: lift_read_def split: prod.splits sum.splits)
  with TOptionalField_Read_count [of 4 c g r pos r' g'] Uint32OptionalField assms(2)
  show ?thesis by auto
next
  case (Int32OptionalField g)
  with assms(1) obtain g' where "TOptionalField_Read 4 c g r pos = (r', Inr g')"
    "f' = Int32OptionalField g'"
    by (auto simp: lift_read_def split: prod.splits sum.splits)
  with TOptionalField_Read_count [of 4 c g r pos r' g'] Int32OptionalField assms(2)
  show ?thesis by auto
next
  case (Int64OptionalField g)
  with assms(1) obtain g' where "TOptionalField_Read 8 c g r pos = (r', Inr g')"
    "f' = Int64OptionalField g'"
    by (auto simp: lift_read_def split: prod.splits sum.splits)
  with TOptionalField_Read_count [of 8 c g r pos r' g'] Int64OptionalField assms(2)
  show ?thesis by auto
next
  case (Uint64OptionalField g)
  with assms(1) obtain g' where "TOptionalField_Read 8 c g r pos = (r', Inr g')"
    "f' = Uint64OptionalField g'"
    by (auto simp: lift_read_def split: prod.splits sum.splits)
  with TOptionalField_Read_count [of 8 c g r pos r' g'] Uint64OptionalField assms(2)
  show ?thesis by auto
next
  case (Float32OptionalField g)
  with assms(1) obtain g' where "TOptionalField_Read 4 c g r pos = (r', Inr g')"
    "f' = Float32OptionalField g'"
    by (auto simp: lift_read_def split: prod.splits sum.splits)
  with TOptionalField_Read_count [of 4 c g r pos r' g'] Float32OptionalField assms(2)
  show ?thesis by auto
next
  case (BoolOptionalField g)
  with assms(1) obtain g' where "BoolOptionalField_Read c g r pos = (r', Inr g')"
    "f' = BoolOptionalField g'"
    by (auto simp: lift_read_def split: prod.splits sum.splits)
  with BoolOptionalField_Read_count [of c g r pos r' g', OF _ assms(3)] BoolOptionalField assms(2)
  show ?thesis by auto
next
  case (StringOptionalField g)
  with assms(1) obtain g' where "StringOptionalField_Read c g r pos = (r', Inr g')"
    "f' = StringOptionalField g'"
    by (auto simp: lift_read_def split: prod.splits sum.splits)
  with StringOptionalField_Read_count [of c g r pos r' g'] StringOptionalField assms(2)
  show ?thesis by auto
qed (use assms(2) in simp_all)

lemma from_le_4: "(from_le [a, b, c, d] :: 32 word)
    = ucast a OR push_bit 8 (ucast b OR push_bit 8 (ucast c OR push_bit 8 (ucast d)))"
  by (simp add: from_le_def)

lemma example_string_read:
  "Field_Read (sample_collab no_footer) (StringOptionalField example_string_column)
     \<lparr>rs_data = example_string_page, rs_pos = 0\<rparr> \<lparr>pos_N = 1\<rparr>
   = (\<lparr>rs_data = example_string_page, rs_pos = 16\<rparr>,
      Inr (StringOptionalField (example_string_column\<lparr>defs := [1, 1], vals_o := [[97]]\<rparr>)))"
  by (simp add: example_string_column_def example_string_page_def NewTOptionalField_def
        lift_read_def StringOptionalField_Read_def OptionalField_doRead_def read_page_def
        sample_collab_def sample_PageHeader_def sample_ReadLevels_def ReadSeeker_Read_def
        read_string_def from_le_4 Let_def)

lemma example_uint32_read:
  "Field_Read (sample_collab no_footer) (Uint32OptionalField example_uint32_column)
     \<lparr>rs_data = example_uint32_page, rs_pos = 0\<rparr> \<lparr>pos_N = 3\<rparr>
   = (\<lparr>rs_data = example_uint32_page, rs_pos = 15\<rparr>,
      Inr (Uint32OptionalField (example_uint32_column\<lparr>defs := [1, 0, 1], vals_o := [7, 9]\<rparr>)))"
  by (simp add: example_uint32_column_def example_uint32_page_def NewTOptionalField_def
        lift_read_def TOptionalField_Read_def OptionalField_doRead_def read_page_def
        sample_collab_def sample_PageHeader_def sample_ReadLevels_def ReadSeeker_Read_def
        binary_Read_def from_le_4 Let_def nVals_def upt_rec)

text \<open>
  For a string column the two counts agree when the position and the pages agree: the
  buffer held as many values as levels equal to 1, \<^verbatim>\<open>doRead\<close> appended \<^verbatim>\<open>pos.N\<close> levels, and
  every level is 0 or 1.
\<close>

lemma StringOptionalField_Read_consistent:
  assumes "StringOptionalField_Read c f r pos = (r', Inr f')"
    and "nVals (defs f) = length (vals_o f)"
    and "length (defs f') = length (defs f) + nat (pos_N pos)"
    and "\<forall>d \<in> set (defs f'). d = 0 \<or> d = 1"
  shows "int (length (vals_o f')) - int (length (vals_o f))
           = int (nVals (defs f')) - int (length (vals_o f))"
proof -
  from StringOptionalField_Read_count [OF assms(1)] obtain new where
    new: "defs f' = defs f @ new"
    and cnt: "int (length (vals_o f')) - int (length (vals_o f))
           = int (length (filter (\<lambda>d. d \<noteq> 0) (take (nat (pos_N pos)) new)))"
    by blast
  from new assms(3) have "take (nat (pos_N pos)) new = new" by simp
  moreover have "filter (\<lambda>d. d \<noteq> 0) new = filter (\<lambda>d. d = 1) new"
    using assms(4) new by (intro filter_cong) auto
  ultimately have "int (length (vals_o f')) - int (length (vals_o f)) = int (nVals new)"
    using cnt by (simp add: nVals_count)
  with new assms(2) show ?thesis by (simp add: nVals_append)
qed

lemma example_uint32_read_short:
  "Field_Read (sample_collab no_footer) (Uint32OptionalField example_uint32_column)
     \<lparr>rs_data = example_uint32_page, rs_pos = 0\<rparr> \<lparr>pos_N = 1\<rparr>
   = (\<lparr>rs_data = example_uint32_page, rs_pos = 15\<rparr>,
      Inr (Uint32OptionalField (example_uint32_column\<lparr>defs := [1, 0, 1], vals_o := [7, 9]\<rparr>)))"
  by (simp add: example_uint32_column_def example_uint32_page_def NewTOptionalField_def
        lift_read_def TOptionalField_Read_def OptionalField_doRead_def read_page_def
        sample_collab_def sample_PageHeader_def sample_ReadLevels_def ReadSeeker_Read_def
        binary_Read_def from_le_4 Let_def nVals_def upt_rec)

lemma example_string_scan:
  "(case Field_Scan (StringOptionalField
            (example_string_column\<lparr>defs := [1, 1], vals_o := [[97]]\<rparr>)) None of
      Inl e \<Rightarrow> Inl e
    | Inr (f, rec) \<Rightarrow> Field_Scan f rec)
   = Inl PanicIndexOutOfRange"
  by (simp add: opt_scan_def TOptionalField_Scan_def example_string_column_def
        NewTOptionalField_def)

text \<open>
  Claim C5.  The fixed-width and bool columns decode the number of values the claim
  gives (lemma \<open>Field_Read_optional_count\<close>), and so does the string column when the
  position agrees with the pages (lemma \<open>StringOptionalField_Read_consistent\<close>).  But
  \<^verbatim>\<open>StringOptionalField.Read\<close> does not compute \<^verbatim>\<open>f.nVals() - len(f.vals)\<close> as its
  siblings do: its loop runs \<^verbatim>\<open>pos.N\<close> times.  Here the position says one value and the
  page holds the levels 1, 1 and the strings \<open>a\<close> and \<open>b\<close>.  \<^verbatim>\<open>doRead\<close> appends both
  levels, and the string column decodes one value where the claim gives two; it is left
  with two levels equal to 1 and one value, and the second \<^verbatim>\<open>Scan\<close> panics.  The uint32
  column, on a page with the levels 1, 0, 1 and the same position, decodes the two
  values the claim gives.
\<close>

theorem optional_string_read_undercount:
  "Field_Read (sample_collab no_footer) (StringOptionalField example_string_column)
     \<lparr>rs_data = example_string_page, rs_pos = 0\<rparr> \<lparr>pos_N = 1\<rparr>
   = (\<lparr>rs_data = example_string_page, rs_pos = 16\<rparr>,
      Inr (StringOptionalField (example_string_column\<lparr>defs := [1, 1], vals_o := [[97]]\<rparr>))) \<and>
   int (Field_nvals (StringOptionalField
          (example_string_column\<lparr>defs := [1, 1], vals_o := [[97]]\<rparr>)))
     - int (Field_nvals (StringOptionalField example_string_column)) = 1 \<and>
   int (nVals [1, 1]) - int (Field_nvals (StringOptionalField example_string_column)) = 2 \<and>
   (case Field_Scan (StringOptionalField
            (example_string_column\<lparr>defs := [1, 1], vals_o := [[97]]\<rparr>)) None of
      Inl e \<Rightarrow> Inl e
    | Inr (f, rec) \<Rightarrow> Field_Scan f rec)
   = Inl PanicIndexOutOfRange \<and>
   Field_Read (sample_collab no_footer) (Uint32OptionalField example_uint32_column)
     \<lparr>rs_data = example_uint32_page, rs_pos = 0\<rparr> \<lparr>pos_N = 1\<rparr>
   = (\<lparr>rs_data = example_uint32_page, rs_pos = 15\<rparr>,
      Inr (Uint32OptionalField (example_uint32_column\<lparr>defs := [1, 0, 1], vals_o := [7, 9]\<rparr>))) \<and>
   int (Field_nvals (Uint32OptionalField
          (example_uint32_column\<lparr>defs := [1, 0, 1], vals_o := [7, 9]\<rparr>)))
     - int (Field_nvals (Uint32OptionalField example_uint32_column))
   = int (nVals [1, 0, 1]) - int (Field_nvals (Uint32OptionalField example_uint32_column))"
  using example_string_read example_string_scan example_uint32_read_short
  by (simp add: example_string_column_def example_uint32_column_def NewTOptionalField_def
        nVals_def)

section \<open>Unknown columns in \<^verbatim>\<open>NewParquetReader\<close>\<close>
















text \<open>
  The hypothesis on the positions is needed.  When a column of the schema has no more
  than \<^verbatim>\<open>pr.index\<close> positions, the loop over its row group is left before the columns
  after it are looked at: here no position is listed, the unknown column \<open>zzz\<close> is
  never reached, and a reader is returned.
\<close>

lemma unknown_column_skipped:
  "\<exists>rd. NewParquetReader
          (sample_collab \<lparr>ft_Rows = 1, ft_Offsets = Inr (\<lambda>n. []),
                          ft_RowGroups = [[[''a''], [''zzz'']]]\<rparr>)
          (example_fields [] []) PAR1 []
        = (\<lparr>rs_data = PAR1, rs_pos = 4\<rparr>, Inr rd)"
  by (simp add: NewParquetReader_def sample_collab_def example_fields_def getFields_def)

section \<open>The round trip of a bool column written in several pages\<close>

lemma flag_new: "NewParquetWriter (flag_fields []) empty_sink [MaxPageSize 1]
  = Inr (ParquetWriter (flag_fields []) 0 None 1, \<lparr>wc_n = 4, wc_w = \<lparr>written = PAR1, room = None\<rparr>\<rparr>,
         [Call_New [parquet_Field ''flag'' BoolType RepetitionRequired]])"
  by (simp add: NewParquetWriter_def newParquetWriter_def empty_sink_def WriteCounter_Write_def
        sink_Write_def flag_fields_def PAR1_def)

lemma flag_adds: "ParquetWriter_Adds (flag_fields []) (ParquetWriter (flag_fields []) 0 None 1) [False, True]
  = Some (ParquetWriter (flag_fields [False]) 1 (Some (ParquetWriter (flag_fields [True]) 1 None 1)) 1)"
  by (simp add: ParquetWriter_Add.simps flag_fields_def TField_Add_def)

lemma flag_write: "ParquetWriter_Write (sample_collab flag_footer) (flag_fields [])
   (ParquetWriter (flag_fields [False]) 1 (Some (ParquetWriter (flag_fields [True]) 1 None 1)) 1)
   \<lparr>wc_n = 4, wc_w = \<lparr>written = PAR1, room = None\<rparr>\<rparr>
   [Call_New [parquet_Field ''flag'' BoolType RepetitionRequired]]
  = (ParquetWriter (flag_fields []) 0 None 1,
     \<lparr>wc_n = 12, wc_w = \<lparr>written = PAR1 @ [1, 1, 1, 0, 1, 1, 1, 1], room = None\<rparr>\<rparr>,
     [Call_New [parquet_Field ''flag'' BoolType RepetitionRequired],
      Call_WritePageHeader ''flag'' 1 1 1, Call_WritePageHeader ''flag'' 1 1 1,
      Call_StartRowGroup [parquet_Field ''flag'' BoolType RepetitionRequired]], None)"
  by (simp add: flag_fields_def ParquetWriter_Write_def
        sample_collab_def RequiredField_doWrite_def Metadata_WritePageHeader_def
        WriteCounter_Write_def sink_Write_def packBools_def packBools_step_def PAR1_def)

lemma flag_close: "ParquetWriter_Close (sample_collab flag_footer)
     \<lparr>wc_n = 12, wc_w = \<lparr>written = PAR1 @ [1, 1, 1, 0, 1, 1, 1, 1], room = None\<rparr>\<rparr>
     [Call_New [parquet_Field ''flag'' BoolType RepetitionRequired],
      Call_WritePageHeader ''flag'' 1 1 1, Call_WritePageHeader ''flag'' 1 1 1,
      Call_StartRowGroup [parquet_Field ''flag'' BoolType RepetitionRequired]]
  = (\<lparr>wc_n = 16, wc_w = \<lparr>written = PAR1 @ [1, 1, 1, 0, 1, 1, 1, 1] @ PAR1, room = None\<rparr>\<rparr>,
     [Call_New [parquet_Field ''flag'' BoolType RepetitionRequired],
      Call_WritePageHeader ''flag'' 1 1 1, Call_WritePageHeader ''flag'' 1 1 1,
      Call_StartRowGroup [parquet_Field ''flag'' BoolType RepetitionRequired],
      Call_Footer], None)"
  by (simp add: ParquetWriter_Close_def Metadata_Footer_def sample_collab_def
        WriteCounter_Write_def sink_Write_def PAR1_def)

lemma flag_read:
  "(case NewParquetReader (sample_collab flag_footer) (flag_fields [])
           (PAR1 @ [1, 1, 1, 0, 1, 1, 1, 1] @ PAR1) [] of
      (r', Inr rd) \<Rightarrow> map_option Field_bools (pr_fields rd ''flag'')
    | (r', Inl e) \<Rightarrow> None) = Some [False, False]"
  by (simp add: NewParquetReader_def sample_collab_def flag_footer_def flag_fields_def
        getFields_def PAR1_def lift_read_def BoolField_Read_def RequiredField_doRead_def
        read_page_def sample_PageHeader_def ReadSeeker_Read_def sample_GetBools_def Let_def
        upt_rec)

lemma flag_pages_5:
  "map_option (\<lambda>p. chain_payload p 0)
     (ParquetWriter_Adds (flag_fields []) (ParquetWriter (flag_fields []) 0 None 5)
        [False, False, False, False, False, True, False, False, False]) = Some [0, 1]"
  by (simp add: ParquetWriter_Add.simps flag_fields_def TField_Add_def chain_payload_def
        chain_def packBools_def packBools_step_def upt_rec)

lemma packBools_9:
  "packBools [False, False, False, False, False, False, False, False, True] = [0, 1]"
  by code_simp

lemma flag_pages_1000:
  "map_option (\<lambda>p. chain_payload p 0)
     (ParquetWriter_Adds (flag_fields []) (ParquetWriter (flag_fields []) 0 None 1000)
        [False, False, False, False, False, False, False, False, True]) = Some [0, 1]"
  by (simp add: ParquetWriter_Add.simps flag_fields_def TField_Add_def chain_payload_def
        chain_def packBools_9)

text \<open>
  Whatever \<^verbatim>\<open>parquet.GetBools\<close> computes, it is given the concatenated value bytes
  and the number of values only.  Nine values with only the sixth true, written with
  page size 5, and nine values with only the ninth true, written in one page, give the
  same bytes and the same number, so no decoder returns both sequences.
\<close>

lemma bool_pages_ambiguous:
  "map_option (\<lambda>p. chain_payload p 0)
     (ParquetWriter_Adds (flag_fields []) (ParquetWriter (flag_fields []) 0 None 5)
        [False, False, False, False, False, True, False, False, False]) = Some [0, 1] \<and>
   map_option (\<lambda>p. chain_payload p 0)
     (ParquetWriter_Adds (flag_fields []) (ParquetWriter (flag_fields []) 0 None 1000)
        [False, False, False, False, False, False, False, False, True]) = Some [0, 1] \<and>
   [False, False, False, False, False, True, False, False, False]
     \<noteq> [False, False, False, False, False, False, False, False, True]"
  by (intro conjI flag_pages_5 flag_pages_1000) simp

text \<open>
  Claim C1 at the records false, true with page size 1, for the sample collaborators
  (no compression, \<^verbatim>\<open>GetBools\<close> as section 4.1 of the specification describes the
  encoding).  The writer is created, takes the two records (the second goes to a child),
  writes the two pages (payloads 0x00 and 0x01, each padded to a byte on its own) and is
  closed.  The reader over the written bytes reads both pages, concatenates their
  payloads and decodes two values from the first byte: its buffer holds false, false,
  not the records written.
\<close>

theorem bool_roundtrip_two_pages:
  "NewParquetWriter (flag_fields []) empty_sink [MaxPageSize 1]
     = Inr (ParquetWriter (flag_fields []) 0 None 1,
            \<lparr>wc_n = 4, wc_w = \<lparr>written = PAR1, room = None\<rparr>\<rparr>,
            [Call_New [parquet_Field ''flag'' BoolType RepetitionRequired]]) \<and>
   ParquetWriter_Adds (flag_fields []) (ParquetWriter (flag_fields []) 0 None 1) [False, True]
     = Some (ParquetWriter (flag_fields [False]) 1
               (Some (ParquetWriter (flag_fields [True]) 1 None 1)) 1) \<and>
   fst (snd (ParquetWriter_Write (sample_collab flag_footer) (flag_fields [])
      (ParquetWriter (flag_fields [False]) 1
         (Some (ParquetWriter (flag_fields [True]) 1 None 1)) 1)
      \<lparr>wc_n = 4, wc_w = \<lparr>written = PAR1, room = None\<rparr>\<rparr>
      [Call_New [parquet_Field ''flag'' BoolType RepetitionRequired]]))
     = \<lparr>wc_n = 12, wc_w = \<lparr>written = PAR1 @ [1, 1, 1, 0, 1, 1, 1, 1], room = None\<rparr>\<rparr> \<and>
   fst (ParquetWriter_Close (sample_collab flag_footer)
      \<lparr>wc_n = 12, wc_w = \<lparr>written = PAR1 @ [1, 1, 1, 0, 1, 1, 1, 1], room = None\<rparr>\<rparr>
      [Call_New [parquet_Field ''flag'' BoolType RepetitionRequired],
       Call_WritePageHeader ''flag'' 1 1 1, Call_WritePageHeader ''flag'' 1 1 1,
       Call_StartRowGroup [parquet_Field ''flag'' BoolType RepetitionRequired]])
     = \<lparr>wc_n = 16,
        wc_w = \<lparr>written = PAR1 @ [1, 1, 1, 0, 1, 1, 1, 1] @ PAR1, room = None\<rparr>\<rparr> \<and>
   (case NewParquetReader (sample_collab flag_footer) (flag_fields [])
           (PAR1 @ [1, 1, 1, 0, 1, 1, 1, 1] @ PAR1) [] of
      (r', Inr rd) \<Rightarrow> map_option Field_bools (pr_fields rd ''flag'')
    | (r', Inl e) \<Rightarrow> None) = Some [False, False]"
  by (intro conjI flag_new flag_adds flag_read) (simp_all add: flag_write flag_close)

end
